theory Spec2Isabelle
  imports Complex_Main "HOL-Library.Word"
begin

unbundle bit_operations_syntax

section \<open>Data of the live session (LiveSession component)\<close>

text \<open>
  A \<open>Uint8Array\<close> is a list of bytes, an \<open>Int16Array\<close> a list of 16-bit words read as
  two's complement (\<open>sint\<close>). A JavaScript string that holds base64 text or a "binary
  string" (every code unit below 256) is a \<open>string\<close>; a code unit of 256 or more is in
  neither the base64 alphabet nor the ASCII whitespace, so \<open>atob\<close> rejects it like any other
  character outside the alphabet.
\<close>

type_synonym byte = "8 word"
type_synonym int16 = "16 word"

text \<open>
  The exceptions of the platform functions the component calls (\<open>TypeError\<close> is what
  \<open>source.start\<close> throws for a start time that is not finite), and the two rejected
  promises of \<open>startSession\<close>: the rejection of \<open>navigator.mediaDevices.getUserMedia\<close>
  (\<open>MediaAccessError\<close>) and the rejection of \<open>ai.live.connect\<close> or the argument of the
  \<open>onerror\<close> callback (\<open>ConnectionError\<close>).
\<close>

datatype js_error =
    InvalidCharacterError
  | RangeError
  | NotSupportedError
  | TypeError
  | MediaAccessError
  | ConnectionError

section \<open>The platform's base64 functions\<close>

text \<open>
  \<open>btoa\<close> and \<open>atob\<close> are the browser's: \<open>btoa\<close> is the base64 encoding of RFC 4648
  section 4 with padding, \<open>atob\<close> the "forgiving-base64 decode" of the WHATWG Infra
  standard. Both work on the table of the 64 characters below.
\<close>

definition base64_alphabet :: string where
  "base64_alphabet =
     ''ABCDEFGHIJKLMNOPQRSTUVWXYZabcdefghijklmnopqrstuvwxyz0123456789+/''"

definition base64_char :: "nat \<Rightarrow> char" where
  "base64_char n = base64_alphabet ! (n mod 64)"

fun index_of :: "'a \<Rightarrow> 'a list \<Rightarrow> nat option" where
  "index_of x [] = None"
| "index_of x (y # ys) = (if x = y then Some 0 else map_option Suc (index_of x ys))"

definition base64_index :: "char \<Rightarrow> nat option" where
  "base64_index c = index_of c base64_alphabet"

text \<open>
  \<open>btoa\<close>: three bytes of input give four characters; a last group of one or two bytes
  is filled with zero bits and padded with \<open>=\<close>. On a binary string it never throws.
\<close>

fun btoa :: "string \<Rightarrow> string" where
  "btoa [] = []"
| "btoa [a] =
     [base64_char (of_char a div 4), base64_char (of_char a mod 4 * 16),
      CHR ''='', CHR ''='']"
| "btoa [a, b] =
     [base64_char (of_char a div 4),
      base64_char (of_char a mod 4 * 16 + of_char b div 16),
      base64_char (of_char b mod 16 * 4), CHR ''='']"
| "btoa (a # b # c # rest) =
     [base64_char (of_char a div 4),
      base64_char (of_char a mod 4 * 16 + of_char b div 16),
      base64_char (of_char b mod 16 * 4 + of_char c div 64),
      base64_char (of_char c mod 64)] @ btoa rest"

text \<open>
  \<open>atob\<close>, step by step as the standard has it: remove the ASCII whitespace; if the
  length is a multiple of 4, remove one or two \<open>=\<close> at the end; fail if the length is 1
  modulo 4; fail on a character outside the alphabet; then read the 6-bit values in
  groups of four (24 bits, three bytes), and from a last group of two or three values
  keep the first 8 or 16 bits. Failure is the exception \<open>InvalidCharacterError\<close>.
\<close>

definition is_ascii_whitespace :: "char \<Rightarrow> bool" where
  "is_ascii_whitespace c =
     (c = CHR 0x09 \<or> c = CHR 0x0A \<or> c = CHR 0x0C \<or> c = CHR 0x0D \<or> c = CHR 0x20)"

definition ends_with_pad :: "string \<Rightarrow> bool" where
  "ends_with_pad d = (d \<noteq> [] \<and> last d = CHR ''='')"

definition strip_padding :: "string \<Rightarrow> string" where
  "strip_padding d =
     (if ends_with_pad d
      then (if ends_with_pad (butlast d) then butlast (butlast d) else butlast d)
      else d)"

fun decode_groups :: "nat list \<Rightarrow> nat list" where
  "decode_groups (a # b # c # d # rest) =
     [a * 4 + b div 16, b mod 16 * 16 + c div 4, c mod 4 * 64 + d] @ decode_groups rest"
| "decode_groups [a, b, c] = [a * 4 + b div 16, b mod 16 * 16 + c div 4]"
| "decode_groups [a, b] = [a * 4 + b div 16]"
| "decode_groups [a] = []"
| "decode_groups [] = []"

definition atob :: "string \<Rightarrow> js_error + string" where
  "atob input =
     (let d1 = filter (\<lambda>c. \<not> is_ascii_whitespace c) input;
          d2 = (if length d1 mod 4 = 0 then strip_padding d1 else d1)
      in if length d2 mod 4 = 1 then Inl InvalidCharacterError
         else (case those (map base64_index d2) of
                 None \<Rightarrow> Inl InvalidCharacterError
               | Some sextets \<Rightarrow> Inr (map char_of (decode_groups sextets))))"

section \<open>Audio helpers\<close>

text \<open>
  \<^verbatim>\<open>function encode(bytes: Uint8Array)\<close>: the loop appends
  \<open>String.fromCharCode(bytes[i])\<close> for every byte, then \<open>btoa\<close>.
\<close>

definition encode :: "byte list \<Rightarrow> string" where
  "encode bytes = btoa (map (\<lambda>b. char_of (unat b)) bytes)"

text \<open>
  \<^verbatim>\<open>function decode(base64: string)\<close>: \<open>atob\<close>, then the loop stores
  \<open>binaryString.charCodeAt(i)\<close> in a fresh \<open>Uint8Array\<close> of the same length. An exception
  of \<open>atob\<close> leaves the function.
\<close>

definition decode :: "string \<Rightarrow> js_error + byte list" where
  "decode base64 =
     (case atob base64 of
        Inl e \<Rightarrow> Inl e
      | Inr binaryString \<Rightarrow> Inr (map (\<lambda>c. of_nat (of_char c)) binaryString))"

text \<open>
  A JavaScript number or an element of a \<open>Float32Array\<close>: a finite value or one of
  the three values that are not. Every finite single-precision value is a \<open>Finite r\<close>;
  the products, quotients and conversions below are exact on them (a multiplication or
  division by \<open>2\<^sup>1\<^sup>5\<close> in double precision, and quotients of at most 16 significant bits
  stored in single precision), so they are written on the reals.
\<close>

datatype number = Finite real | NaN | PosInf | NegInf

text \<open>\<open>data[i] * 32768\<close>.\<close>

definition times_32768 :: "number \<Rightarrow> number" where
  "times_32768 x =
     (case x of Finite r \<Rightarrow> Finite (r * 32768) | NaN \<Rightarrow> NaN
      | PosInf \<Rightarrow> PosInf | NegInf \<Rightarrow> NegInf)"

text \<open>
  Storing a number in an \<open>Int16Array\<close> element is ECMAScript's \<open>ToInt16\<close>: a value that
  is not finite gives 0; a finite one is truncated towards zero and taken modulo
  \<open>2\<^sup>1\<^sup>6\<close> into the range of a signed 16-bit integer.
\<close>

definition js_truncate :: "real \<Rightarrow> int" where
  "js_truncate r = (if r < 0 then \<lceil>r\<rceil> else \<lfloor>r\<rfloor>)"

definition ToInt16 :: "number \<Rightarrow> int16" where
  "ToInt16 x =
     (case x of Finite r \<Rightarrow> word_of_int (js_truncate r) | NaN \<Rightarrow> 0
      | PosInf \<Rightarrow> 0 | NegInf \<Rightarrow> 0)"

text \<open>
  \<open>new Uint8Array(int16.buffer)\<close> and \<open>new Int16Array(data.buffer)\<close> are two views of
  one buffer; the bytes of an element are in the platform's order, taken little-endian
  here. The \<open>Int16Array\<close> constructor throws a \<open>RangeError\<close> when the byte length of the
  buffer is not a multiple of 2.
\<close>

definition int16_bytes :: "int16 \<Rightarrow> byte list" where
  "int16_bytes w = [ucast w, ucast (drop_bit 8 w)]"

definition Uint8Array_of_buffer :: "int16 list \<Rightarrow> byte list" where
  "Uint8Array_of_buffer int16 = concat (map int16_bytes int16)"

fun int16_view :: "byte list \<Rightarrow> int16 list" where
  "int16_view (lo # hi # rest) = (ucast lo OR push_bit 8 (ucast hi)) # int16_view rest"
| "int16_view [lo] = []"
| "int16_view [] = []"

definition Int16Array_of_buffer :: "byte list \<Rightarrow> js_error + int16 list" where
  "Int16Array_of_buffer buffer =
     (if odd (length buffer) then Inl RangeError else Inr (int16_view buffer))"

section \<open>Double-precision numbers\<close>

text \<open>
  The times of the player (the clock, the cursor, a duration) are doubles, and \<open>+\<close> and
  \<open>/\<close> on them round to the nearest double, ties to the even significand (IEEE 754).
  \<open>round_double x\<close> is the double that a real result \<open>x\<close> is rounded to. For \<open>0 \<le> x\<close>:
  \<open>exponent x\<close> is the binade of \<open>x\<close>, the greatest \<open>e\<close> in \<open>[-1022, 1023]\<close> with
  \<open>2\<^sup>e \<le> x\<close>, or \<open>-1022\<close> below that (the subnormal range); \<open>quantum x\<close> is the spacing
  \<open>2\<^bsup>e - 52\<^esup>\<close> of the doubles there; \<open>x\<close> is rounded to a multiple of the quantum,
  and a result of \<open>2\<^sup>1\<^sup>0\<^sup>2\<^sup>4\<close> or more is the overflow to \<open>Infinity\<close>. A negative \<open>x\<close> is
  rounded as \<open>-x\<close> is. The sign of a zero is not kept: no operation here reads it.
\<close>

definition round_half_even :: "real \<Rightarrow> int" where
  "round_half_even y =
     (let f = \<lfloor>y\<rfloor>
      in if y - of_int f < 1 / 2 then f
         else if 1 / 2 < y - of_int f then f + 1
         else if even f then f else f + 1)"

primrec binade :: "nat \<Rightarrow> real \<Rightarrow> int" where
  "binade 0 x = - 1022"
| "binade (Suc k) x =
     (if 2 powi (int (Suc k) - 1022) \<le> x then int (Suc k) - 1022 else binade k x)"

definition exponent :: "real \<Rightarrow> int" where
  "exponent x = binade 2045 x"

definition quantum :: "real \<Rightarrow> real" where
  "quantum x = 2 powi (exponent x - 52)"

definition round_pos :: "real \<Rightarrow> number" where
  "round_pos x =
     (let r = of_int (round_half_even (x / quantum x)) * quantum x
      in if 2 ^ 1024 \<le> r then PosInf else Finite r)"

definition negate :: "number \<Rightarrow> number" where
  "negate x =
     (case x of Finite r \<Rightarrow> Finite (- r) | NaN \<Rightarrow> NaN | PosInf \<Rightarrow> NegInf
      | NegInf \<Rightarrow> PosInf)"

definition round_double :: "real \<Rightarrow> number" where
  "round_double x = (if x < 0 then negate (round_pos (- x)) else round_pos x)"

text \<open>A real is a (finite) double when rounding leaves it as it is.\<close>

definition is_double :: "real \<Rightarrow> bool" where
  "is_double x = (round_double x = Finite x)"

text \<open>\<open>a + b\<close>, \<open>Math.max(a, b)\<close> and \<open>a <= b\<close> on numbers.\<close>

fun js_add :: "number \<Rightarrow> number \<Rightarrow> number" where
  "js_add (Finite a) (Finite b) = round_double (a + b)"
| "js_add NaN b = NaN"
| "js_add a NaN = NaN"
| "js_add PosInf NegInf = NaN"
| "js_add NegInf PosInf = NaN"
| "js_add PosInf b = PosInf"
| "js_add a PosInf = PosInf"
| "js_add NegInf b = NegInf"
| "js_add a NegInf = NegInf"

fun Math_max :: "number \<Rightarrow> number \<Rightarrow> number" where
  "Math_max (Finite a) (Finite b) = Finite (max a b)"
| "Math_max NaN b = NaN"
| "Math_max a NaN = NaN"
| "Math_max PosInf b = PosInf"
| "Math_max a PosInf = PosInf"
| "Math_max NegInf b = b"
| "Math_max a NegInf = a"

fun number_le :: "number \<Rightarrow> number \<Rightarrow> bool" where
  "number_le (Finite a) (Finite b) = (a \<le> b)"
| "number_le NaN b = False"
| "number_le a NaN = False"
| "number_le NegInf b = True"
| "number_le a PosInf = True"
| "number_le PosInf b = False"
| "number_le a NegInf = False"

section \<open>Audio buffers\<close>

text \<open>
  An \<open>AudioBuffer\<close>, with the samples of its channel 0. \<open>createBuffer\<close> is the Web Audio
  API's: it throws a \<open>NotSupportedError\<close> when an argument is zero (the length of a
  buffer is at least one frame), and the new buffer is silent. The one sample rate
  it is called with here, 24000, is in every implementation's range.
\<close>

record audio_buffer =
  numberOfChannels :: nat
  sampleRate :: nat
  channelData :: "number list"

text \<open>
  \<open>AudioBuffer.duration\<close> is the double \<open>length / sampleRate\<close>: the quotient, rounded (a
  division by zero does not arise for a buffer that \<open>createBuffer\<close> has made).
\<close>

definition duration :: "audio_buffer \<Rightarrow> number" where
  "duration buffer =
     (if sampleRate buffer = 0
      then (if channelData buffer = [] then NaN else PosInf)
      else round_double (real (length (channelData buffer)) / real (sampleRate buffer)))"

definition createBuffer :: "nat \<Rightarrow> nat \<Rightarrow> nat \<Rightarrow> js_error + audio_buffer" where
  "createBuffer channels frames rate =
     (if channels = 0 \<or> frames = 0 \<or> rate = 0 then Inl NotSupportedError
      else Inr \<lparr>numberOfChannels = channels, sampleRate = rate,
                channelData = replicate frames (Finite 0)\<rparr>)"

definition SAMPLE_RATE_IN :: nat where
  "SAMPLE_RATE_IN = 16000"

definition SAMPLE_RATE_OUT :: nat where
  "SAMPLE_RATE_OUT = 24000"

text \<open>
  \<^verbatim>\<open>async function decodeAudioData(data: Uint8Array, ctx: AudioContext)\<close>: the
  \<open>Int16Array\<close> over the bytes, a buffer of one channel and that many frames, and the
  loop \<open>channelData[i] = dataInt16[i] / 32768.0\<close>.
\<close>

definition decodeAudioData :: "byte list \<Rightarrow> js_error + audio_buffer" where
  "decodeAudioData bytes =
     (case Int16Array_of_buffer bytes of
        Inl e \<Rightarrow> Inl e
      | Inr dataInt16 \<Rightarrow>
          (let frameCount = length dataInt16 in
           case createBuffer 1 frameCount SAMPLE_RATE_OUT of
             Inl e \<Rightarrow> Inl e
           | Inr buffer \<Rightarrow>
               Inr (buffer\<lparr>channelData :=
                      map (\<lambda>v. Finite (real_of_int (sint v) / 32768)) dataInt16\<rparr>)))"

text \<open>
  The media object of \<open>sendRealtimeInput\<close> and the \<open>inlineData\<close> of an inbound part are
  the SDK's \<open>Blob\<close>, both fields optional.
  \<^verbatim>\<open>function createBlob(data: Float32Array)\<close>: the loop
  \<open>int16[i] = data[i] * 32768\<close>, then the bytes of the \<open>Int16Array\<close>, encoded.
\<close>

record blob =
  data :: "string option"
  mimeType :: "string option"

definition createBlob :: "number list \<Rightarrow> blob" where
  "createBlob samples =
     (let int16 = map (\<lambda>x. ToInt16 (times_32768 x)) samples
      in \<lparr>data = Some (encode (Uint8Array_of_buffer int16)),
          mimeType = Some ''audio/pcm;rate=16000''\<rparr>)"

section \<open>The component's state and the inbound message handler\<close>

text \<open>
  \<open>LiveServerMessage\<close>, as far as the handler reads it:
  \<open>msg.serverContent?.modelTurn?.parts?.[0]?.inlineData?.data\<close>.
\<close>

record part =
  inlineData :: "blob option"

record content =
  parts :: "part list option"

record live_server_content =
  modelTurn :: "content option"

record live_server_message =
  serverContent :: "live_server_content option"

definition base64Audio :: "live_server_message \<Rightarrow> string option" where
  "base64Audio msg =
     Option.bind (Option.bind (Option.bind (Option.bind (Option.bind
       (serverContent msg) modelTurn) parts)
       (\<lambda>ps. case ps of [] \<Rightarrow> None | p # _ \<Rightarrow> Some p)) inlineData) data"

text \<open>
  \<open>decodeAudioData(decode(base64Audio), ctx)\<close>, the argument first; an exception of
  either call is the result.
\<close>

definition decode_payload :: "string \<Rightarrow> js_error + audio_buffer" where
  "decode_payload base64 =
     (case decode base64 of
        Inl e \<Rightarrow> Inl e
      | Inr bytes \<Rightarrow> decodeAudioData bytes)"

text \<open>A message whose first part carries the given payload.\<close>

definition audio_message :: "string \<Rightarrow> live_server_message" where
  "audio_message base64 =
     \<lparr>serverContent = Some \<lparr>modelTurn = Some \<lparr>parts = Some
        [\<lparr>inlineData = Some \<lparr>data = Some base64,
                               mimeType = Some ''audio/pcm;rate=24000''\<rparr>\<rparr>]\<rparr>\<rparr>\<rparr>"

text \<open>
  The state: \<open>status\<close> and \<open>logs\<close> (\<open>useState\<close>), \<open>nextStartTime\<close>
  (\<open>nextStartTimeRef.current\<close>, the playback cursor), and the effects so far:
  \<open>started\<close>, the calls \<open>source.start(when)\<close> with the buffer of the source, in order;
  \<open>sent\<close>, the calls of \<open>session.sendRealtimeInput\<close>, in order; \<open>console\<close>, what
  \<open>console.error\<close> was given. \<open>sessionPromise\<close> is the promise returned by
  \<open>ai.live.connect\<close> (\<open>NotCreated\<close> before the call, which is also what registers the
  callbacks); \<open>waiting\<close> holds the media of the \<open>sessionPromise.then\<close> callbacks that have
  not run yet; \<open>processor\<close> and \<open>interval\<close> say whether \<open>onaudioprocess\<close> is installed
  and whether the timer of \<open>setInterval\<close> is set.

  The cursor is a JavaScript number, a double: \<open>Math.max\<close> on doubles is exact, the
  \<open>+=\<close> rounds. A start time is the finite double \<open>source.start\<close> was called with.
\<close>

datatype status = Connecting | Connected | Error | Disconnected

datatype promise = NotCreated | Pending | Resolved | Rejected

record live_session =
  status :: status
  logs :: "string list"
  nextStartTime :: number
  started :: "(real \<times> audio_buffer) list"
  sent :: "blob list"
  console :: "js_error list"
  sessionPromise :: promise
  waiting :: "blob list"
  processor :: bool
  interval :: bool

definition initial_session :: live_session where
  "initial_session =
     \<lparr>status = Connecting, logs = [], nextStartTime = Finite 0, started = [], sent = [],
      console = [], sessionPromise = NotCreated, waiting = [], processor = False,
      interval = False\<rparr>"

text \<open>
  An \<open>AudioContext\<close>, as far as the handler reads it: its clock, a finite double
  (\<open>is_double\<close>, where a property depends on it).
\<close>

record audio_context =
  currentTime :: real

text \<open>
  \<open>onmessage\<close>, given the message, the value of \<open>outputAudioContextRef.current\<close>
  (\<open>None\<close> is \<open>null\<close>) and the state. The condition \<open>base64Audio && ...\<close> is false for
  \<open>undefined\<close> and for the empty string. The cursor is raised to the clock before the
  payload is decoded, so an exception of \<open>decode\<close> or \<open>decodeAudioData\<close> (the handler's
  promise is rejected with it, the first component of the result) leaves the raised
  cursor behind and starts nothing. \<open>source.start(when)\<close> throws a \<open>TypeError\<close> when
  \<open>when\<close> is not finite and a \<open>RangeError\<close> when it is negative, before the cursor is
  advanced. The \<open>await\<close> on the already settled promise resumes before the next message
  is delivered, so one call is one step.
\<close>

definition onmessage ::
  "live_server_message \<Rightarrow> audio_context option \<Rightarrow> live_session \<Rightarrow> js_error option \<times> live_session"
where
  "onmessage msg ctxRef s =
     (case base64Audio msg of
        None \<Rightarrow> (None, s)
      | Some base64 \<Rightarrow>
          if base64 = [] then (None, s)
          else
            (case ctxRef of
               None \<Rightarrow> (None, s)
             | Some ctx \<Rightarrow>
                 (let s1 = s\<lparr>nextStartTime :=
                            Math_max (nextStartTime s) (Finite (currentTime ctx))\<rparr>
                  in case decode_payload base64 of
                       Inl e \<Rightarrow> (Some e, s1)
                     | Inr audioBuffer \<Rightarrow>
                         (case nextStartTime s1 of
                            Finite when \<Rightarrow>
                              if when < 0 then (Some RangeError, s1)
                              else
                                (None,
                                 s1\<lparr>started := started s1 @ [(when, audioBuffer)],
                                    nextStartTime :=
                                      js_add (nextStartTime s1) (duration audioBuffer)\<rparr>)
                          | NaN \<Rightarrow> (Some TypeError, s1)
                          | PosInf \<Rightarrow> (Some TypeError, s1)
                          | NegInf \<Rightarrow> (Some TypeError, s1)))))"

text \<open>
  The SDK calls the handler once for each message, in order; \<open>deliver\<close> takes the
  messages with the reading of the output clock at each call. A rejected call changes
  nothing for the calls after it.
\<close>

fun deliver :: "(live_server_message \<times> real) list \<Rightarrow> live_session \<Rightarrow> live_session" where
  "deliver [] s = s"
| "deliver ((msg, t) # rest) s =
     deliver rest (snd (onmessage msg (Some \<lparr>currentTime = t\<rparr>) s))"

section \<open>The session's lifecycle\<close>

text \<open>
  \<open>sessionPromise.then(session => session.sendRealtimeInput({ media }))\<close>: the call is
  made at once on a resolved promise, later and in order on a pending one, never on a
  rejected one.
\<close>

definition send :: "blob \<Rightarrow> live_session \<Rightarrow> live_session" where
  "send media s =
     (case sessionPromise s of
        Resolved \<Rightarrow> s\<lparr>sent := sent s @ [media]\<rparr>
      | Pending \<Rightarrow> s\<lparr>waiting := waiting s @ [media]\<rparr>
      | Rejected \<Rightarrow> s
      | NotCreated \<Rightarrow> s)"

text \<open>
  \<open>startSession\<close> up to its first \<open>await\<close>s, given how \<open>getUserMedia\<close> settles: a
  rejection goes to the \<open>catch\<close> block, which logs it and sets the status; otherwise
  \<open>ai.live.connect\<close> is called with the four callbacks.
\<close>

definition startSession_catch :: "js_error \<Rightarrow> live_session \<Rightarrow> live_session" where
  "startSession_catch e s = s\<lparr>console := console s @ [e], status := Error\<rparr>"

definition startSession :: "js_error + unit \<Rightarrow> live_session \<Rightarrow> live_session" where
  "startSession getUserMedia s =
     (case getUserMedia of
        Inl e \<Rightarrow> startSession_catch e s
      | Inr stream \<Rightarrow> s\<lparr>sessionPromise := Pending\<rparr>)"

definition onopen :: "live_session \<Rightarrow> live_session" where
  "onopen s =
     s\<lparr>status := Connected, logs := logs s @ [''Connected to Live Uplink.''],
       processor := True\<rparr>"

definition onaudioprocess :: "number list \<Rightarrow> live_session \<Rightarrow> live_session" where
  "onaudioprocess inputData s = send (createBlob inputData) s"

definition onclose :: "live_session \<Rightarrow> live_session" where
  "onclose s = s\<lparr>status := Disconnected\<rparr>"

definition onerror :: "js_error \<Rightarrow> live_session \<Rightarrow> live_session" where
  "onerror err s = s\<lparr>console := console s @ [err], status := Error\<rparr>"

text \<open>
  After \<open>await sessionPromise\<close>: the waiting \<open>then\<close> callbacks run and the timer is set.
  A tick of the timer sends a frame when there is one (\<open>video && canvas && ctx\<close>).
\<close>

definition session_resolved :: "live_session \<Rightarrow> live_session" where
  "session_resolved s =
     s\<lparr>sessionPromise := Resolved, sent := sent s @ waiting s, waiting := [],
       interval := True\<rparr>"

definition session_rejected :: "js_error \<Rightarrow> live_session \<Rightarrow> live_session" where
  "session_rejected e s = startSession_catch e (s\<lparr>sessionPromise := Rejected\<rparr>)"

definition interval_tick :: "string option \<Rightarrow> live_session \<Rightarrow> live_session" where
  "interval_tick frame s =
     (case frame of
        None \<Rightarrow> s
      | Some base64 \<Rightarrow> send \<lparr>data = Some base64, mimeType = Some ''image/jpeg''\<rparr> s)"

text \<open>
  What the platform and the SDK can do to a session once \<open>startSession\<close> has run. A
  callback that has not been registered or installed cannot be called: such an event
  leaves the state as it is.
\<close>

datatype event =
    OnOpen
  | OnMessage live_server_message real
  | OnClose
  | OnError js_error
  | SessionResolved
  | SessionRejected js_error
  | AudioProcess "number list"
  | IntervalTick "string option"

fun handle :: "event \<Rightarrow> live_session \<Rightarrow> live_session" where
  "handle OnOpen s = (if sessionPromise s = NotCreated then s else onopen s)"
| "handle (OnMessage msg t) s =
     (if sessionPromise s = NotCreated then s
      else snd (onmessage msg (Some \<lparr>currentTime = t\<rparr>) s))"
| "handle OnClose s = (if sessionPromise s = NotCreated then s else onclose s)"
| "handle (OnError err) s = (if sessionPromise s = NotCreated then s else onerror err s)"
| "handle SessionResolved s = (if sessionPromise s = Pending then session_resolved s else s)"
| "handle (SessionRejected e) s =
     (if sessionPromise s = Pending then session_rejected e s else s)"
| "handle (AudioProcess inputData) s = (if processor s then onaudioprocess inputData s else s)"
| "handle (IntervalTick frame) s = (if interval s then interval_tick frame s else s)"

fun run :: "event list \<Rightarrow> live_session \<Rightarrow> live_session" where
  "run [] s = s"
| "run (ev # evs) s = run evs (handle ev s)"

section \<open>Auxiliary functions of the proofs\<close>

text \<open>
  The 6-bit values and the number of \<open>=\<close> that \<open>btoa\<close> produces, apart from the
  characters they are written with.
\<close>

fun sextets :: "string \<Rightarrow> nat list" where
  "sextets [] = []"
| "sextets [a] = [of_char a div 4, of_char a mod 4 * 16]"
| "sextets [a, b] =
     [of_char a div 4, of_char a mod 4 * 16 + of_char b div 16, of_char b mod 16 * 4]"
| "sextets (a # b # c # rest) =
     [of_char a div 4, of_char a mod 4 * 16 + of_char b div 16,
      of_char b mod 16 * 4 + of_char c div 64, of_char c mod 64] @ sextets rest"

fun pad_len :: "string \<Rightarrow> nat" where
  "pad_len [] = 0"
| "pad_len [a] = 2"
| "pad_len [a, b] = 1"
| "pad_len (a # b # c # rest) = pad_len rest"

text \<open>
  Properties of the list of started sources, with the end of a source taken as the
  program computes it, the double \<open>start + duration\<close>: \<open>no_overlap_double\<close>, every source
  starts no earlier than that end of the source before it; \<open>gapless_double\<close>, every
  source starts exactly at that end of the source before it. \<open>ends_by c\<close> and
  \<open>ends_at c\<close>: the last source, if there is one, ends so no later than \<open>c\<close>, or exactly
  at \<open>c\<close>; \<open>starts_by c\<close>: it starts no later than \<open>c\<close>.
\<close>

fun no_overlap_double :: "(real \<times> audio_buffer) list \<Rightarrow> bool" where
  "no_overlap_double ((t1, b1) # (t2, b2) # rest) =
     (number_le (js_add (Finite t1) (duration b1)) (Finite t2) \<and>
      no_overlap_double ((t2, b2) # rest))"
| "no_overlap_double [x] = True"
| "no_overlap_double [] = True"

fun gapless_double :: "(real \<times> audio_buffer) list \<Rightarrow> bool" where
  "gapless_double ((t1, b1) # (t2, b2) # rest) =
     (js_add (Finite t1) (duration b1) = Finite t2 \<and> gapless_double ((t2, b2) # rest))"
| "gapless_double [x] = True"
| "gapless_double [] = True"

definition ends_by :: "number \<Rightarrow> (real \<times> audio_buffer) list \<Rightarrow> bool" where
  "ends_by c xs =
     (xs = [] \<or> number_le (js_add (Finite (fst (last xs))) (duration (snd (last xs)))) c)"

definition ends_at :: "number \<Rightarrow> (real \<times> audio_buffer) list \<Rightarrow> bool" where
  "ends_at c xs = (xs = [] \<or> js_add (Finite (fst (last xs))) (duration (snd (last xs))) = c)"

definition starts_by :: "number \<Rightarrow> (real \<times> audio_buffer) list \<Rightarrow> bool" where
  "starts_by c xs = (xs = [] \<or> number_le (Finite (fst (last xs))) c)"

text \<open>
  A cursor the handler can have left behind: a double that is not negative, or
  \<open>Infinity\<close> after an overflow. Clock readings that are all doubles.
\<close>

fun valid_cursor :: "number \<Rightarrow> bool" where
  "valid_cursor (Finite c) = (0 \<le> c \<and> is_double c)"
| "valid_cursor PosInf = True"
| "valid_cursor NaN = False"
| "valid_cursor NegInf = False"

fun double_clock :: "(live_server_message \<times> real) list \<Rightarrow> bool" where
  "double_clock [] = True"
| "double_clock ((msg, t) # rest) = (is_double t \<and> double_clock rest)"

text \<open>
  A burst: at every call of the handler the clock has not passed the cursor (the
  messages arrive faster than the audio scheduled so far plays).
\<close>

fun burst :: "(live_server_message \<times> real) list \<Rightarrow> live_session \<Rightarrow> bool" where
  "burst [] s = True"
| "burst ((msg, t) # rest) s =
     (number_le (Finite t) (nextStartTime s) \<and>
      burst rest (snd (onmessage msg (Some \<lparr>currentTime = t\<rparr>) s)))"

section \<open>Base64: decoding what was encoded\<close>

lemma index_of_nth: "distinct xs \<Longrightarrow> n < length xs \<Longrightarrow> index_of (xs ! n) xs = Some n"
proof (induction xs arbitrary: n)
  case Nil then show ?case by simp
next
  case (Cons y ys)
  show ?case
  proof (cases n)
    case 0 then show ?thesis by simp
  next
    case (Suc m)
    with Cons.prems have "m < length ys" "distinct ys" "ys ! m \<noteq> y" by auto
    with Cons.IH Suc show ?thesis by auto
  qed
qed

lemma length_base64_alphabet: "length base64_alphabet = 64"
  by (simp add: base64_alphabet_def)

lemma distinct_base64_alphabet: "distinct base64_alphabet"
  by (simp add: base64_alphabet_def)

lemma base64_index_char: "n < 64 \<Longrightarrow> base64_index (base64_char n) = Some n"
  by (simp add: base64_index_def base64_char_def index_of_nth distinct_base64_alphabet
      length_base64_alphabet)

lemma base64_char_in: "base64_char n \<in> set base64_alphabet"
  by (simp add: base64_char_def length_base64_alphabet)

lemma base64_char_not_pad: "base64_char n \<noteq> CHR ''=''"
proof -
  have "CHR ''='' \<notin> set base64_alphabet" by (simp add: base64_alphabet_def)
  with base64_char_in show ?thesis by metis
qed

lemma base64_char_not_ws: "\<not> is_ascii_whitespace (base64_char n)"
proof -
  have "\<forall>c\<in>set base64_alphabet. \<not> is_ascii_whitespace c"
    by (simp add: base64_alphabet_def is_ascii_whitespace_def)
  with base64_char_in show ?thesis by blast
qed

lemma btoa_sextets: "btoa s = map base64_char (sextets s) @ replicate (pad_len s) (CHR ''='')"
  by (induction s rule: btoa.induct) (simp_all add: numeral_2_eq_2)

lemma of_char_less_256: "(of_char c :: nat) < 256"
  by (rule order_less_le_trans [of _ "2 ^ 8"]) (simp_all add: of_char_def)

lemma div_bounds:
  fixes a :: nat
  assumes "a < 256"
  shows "a div 4 < 64" "a div 16 < 16" "a div 64 < 4"
  using assms by simp_all

lemma sextet_bounds:
  fixes a b c :: nat
  assumes "a < 256" "b < 256" "c < 256"
  shows "a div 4 < 64" "a mod 4 * 16 < 64" "a mod 4 * 16 + b div 16 < 64"
    "b mod 16 * 4 < 64" "b mod 16 * 4 + c div 64 < 64" "c mod 64 < 64"
proof -
  have am: "a mod 4 * 16 \<le> 48" using mod_less_divisor [of 4 a] by linarith
  have bm: "b mod 16 * 4 \<le> 60" using mod_less_divisor [of 16 b] by linarith
  show "a div 4 < 64" using assms(1) by simp
  show "a mod 4 * 16 < 64" using am by linarith
  show "a mod 4 * 16 + b div 16 < 64" using am div_bounds(2) [OF assms(2)] by linarith
  show "b mod 16 * 4 < 64" using bm by linarith
  show "b mod 16 * 4 + c div 64 < 64" using bm div_bounds(3) [OF assms(3)] by linarith
  show "c mod 64 < 64" by simp
qed

lemma group_roundtrip:
  fixes a b c :: nat
  assumes "a < 256" "b < 256" "c < 256"
  shows "a div 4 * 4 + a mod 4 * 16 div 16 = a"
    "a div 4 * 4 + (a mod 4 * 16 + b div 16) div 16 = a"
    "(a mod 4 * 16 + b div 16) mod 16 * 16 + b mod 16 * 4 div 4 = b"
    "(a mod 4 * 16 + b div 16) mod 16 * 16 + (b mod 16 * 4 + c div 64) div 4 = b"
    "(b mod 16 * 4 + c div 64) mod 4 * 64 + c mod 64 = c"
  using div_bounds [OF assms(1)] div_bounds [OF assms(2)] div_bounds [OF assms(3)]
  by simp_all

lemma sextets_less_64: "n \<in> set (sextets s) \<Longrightarrow> n < 64"
proof (induction s arbitrary: n rule: sextets.induct)
  case 1 then show ?case by simp
next
  case (2 a)
  note sextet_bounds [OF of_char_less_256 [of a] of_char_less_256 [of a] of_char_less_256 [of a]]
  with 2 show ?case by auto
next
  case (3 a b)
  note sextet_bounds [OF of_char_less_256 [of a] of_char_less_256 [of b] of_char_less_256 [of b]]
  with 3 show ?case by auto
next
  case (4 a b c rest)
  note sextet_bounds [OF of_char_less_256 [of a] of_char_less_256 [of b] of_char_less_256 [of c]]
  with 4 show ?case by auto
qed

lemma pad_len_le_2: "pad_len s \<le> 2"
  by (induction s rule: pad_len.induct) simp_all

lemma length_sextets_pad: "(length (sextets s) + pad_len s) mod 4 = 0"
  by (induction s rule: sextets.induct) simp_all

lemma length_sextets_mod: "length (sextets s) mod 4 \<noteq> 1"
  by (induction s rule: sextets.induct) simp_all

lemma decode_groups_sextets: "decode_groups (sextets s) = map of_char s"
proof (induction s rule: sextets.induct)
  case 1 then show ?case by simp
next
  case (2 a)
  note group_roundtrip [OF of_char_less_256 [of a] of_char_less_256 [of a] of_char_less_256 [of a]]
  then show ?case by simp
next
  case (3 a b)
  note group_roundtrip [OF of_char_less_256 [of a] of_char_less_256 [of b] of_char_less_256 [of b]]
  then show ?case by simp
next
  case (4 a b c rest)
  note group_roundtrip [OF of_char_less_256 [of a] of_char_less_256 [of b] of_char_less_256 [of c]]
  with 4 show ?case by simp
qed

lemma strip_padding_append:
  assumes "p \<le> 2" "xs = [] \<or> last xs \<noteq> CHR ''=''"
  shows "strip_padding (xs @ replicate p (CHR ''='')) = xs"
proof -
  from assms(1) consider "p = 0" | "p = 1" | "p = 2" by arith
  then show ?thesis
  proof cases
    case 1 with assms(2) show ?thesis by (auto simp: strip_padding_def ends_with_pad_def)
  next
    case 2 with assms(2) show ?thesis by (auto simp: strip_padding_def ends_with_pad_def)
  next
    case 3
    then have "replicate p (CHR ''='') = [CHR ''='', CHR ''='']" by (simp add: numeral_2_eq_2)
    with assms(2) show ?thesis
      by (auto simp: strip_padding_def ends_with_pad_def butlast_append)
  qed
qed

lemma those_map_Some: "those (map Some xs) = Some xs"
  by (induction xs) simp_all

lemma map_base64_index_char:
  "\<forall>n\<in>set ns. n < 64 \<Longrightarrow> map base64_index (map base64_char ns) = map Some ns"
  by (induction ns) (simp_all add: base64_index_char)

lemma atob_btoa: "atob (btoa s) = Inr s"
proof -
  let ?body = "map base64_char (sextets s)"
  let ?pad = "replicate (pad_len s) (CHR ''='')"
  have shape: "btoa s = ?body @ ?pad" by (rule btoa_sextets)
  have no_ws: "filter (\<lambda>c. \<not> is_ascii_whitespace c) (btoa s) = btoa s"
  proof -
    have "\<not> is_ascii_whitespace (CHR ''='')" by (simp add: is_ascii_whitespace_def)
    then show ?thesis unfolding shape by (auto simp: filter_id_conv base64_char_not_ws)
  qed
  have len: "length (btoa s) mod 4 = 0"
    unfolding shape using length_sextets_pad [of s] by simp
  have last_body: "?body = [] \<or> last ?body \<noteq> CHR ''=''"
    by (cases "sextets s" rule: rev_cases) (simp_all add: base64_char_not_pad)
  have strip: "strip_padding (btoa s) = ?body"
    unfolding shape by (rule strip_padding_append [OF pad_len_le_2 last_body])
  have len_body: "length ?body mod 4 \<noteq> 1"
    using length_sextets_mod [of s] by simp
  have idx: "those (map base64_index ?body) = Some (sextets s)"
  proof -
    have "\<forall>n\<in>set (sextets s). n < 64" using sextets_less_64 by blast
    then have "map base64_index ?body = map Some (sextets s)" by (rule map_base64_index_char)
    then show ?thesis by (simp only: those_map_Some)
  qed
  have chars: "map char_of (decode_groups (sextets s)) = s"
    by (simp add: decode_groups_sextets)
  have "atob (btoa s) =
        (if length ?body mod 4 = 1 then Inl InvalidCharacterError
         else (case those (map base64_index ?body) of
                 None \<Rightarrow> Inl InvalidCharacterError
               | Some sx \<Rightarrow> Inr (map char_of (decode_groups sx))))"
    unfolding atob_def Let_def no_ws by (simp only: len strip if_True simp_thms)
  also have "\<dots> = Inr s"
    by (simp only: len_body idx chars if_False option.case)
  finally show ?thesis .
qed

lemma byte_char_roundtrip: "(of_nat (of_char (char_of (unat b))) :: byte) = b"
proof -
  have "unat b < 256" using unsigned_less [of b] by simp
  then show ?thesis by simp
qed

lemma decode_encode: "decode (encode bytes) = Inr bytes"
  by (simp add: decode_def encode_def atob_btoa comp_def byte_char_roundtrip del: of_char_of)

section \<open>The two views of a buffer, and the conversions\<close>

lemma int16_bytes_roundtrip:
  "ucast (ucast w :: byte) OR push_bit 8 (ucast (ucast (drop_bit 8 w) :: byte)) = (w :: int16)"
  by (rule bit_word_eqI) (auto simp: bit_simps)

lemma int16_view_bytes: "int16_view (Uint8Array_of_buffer ws) = ws"
  by (induction ws) (simp_all add: Uint8Array_of_buffer_def int16_bytes_def int16_bytes_roundtrip)

lemma length_Uint8Array_of_buffer: "length (Uint8Array_of_buffer ws) = 2 * length ws"
  by (induction ws) (simp_all add: Uint8Array_of_buffer_def int16_bytes_def)

lemma length_int16_view: "length (int16_view bs) = length bs div 2"
  by (induction bs rule: int16_view.induct) simp_all

lemma sint_int16_range: "- 32768 \<le> sint (v :: int16) \<and> sint v < 32768"
  using sint_ge [of v] sint_lt [of v] by simp

lemma sint_word_of_int_16:
  "sint (word_of_int k :: int16) = (k + 32768) mod 65536 - 32768"
  by (simp add: sint_sbintrunc' signed_take_bit_eq_take_bit_shift take_bit_eq_mod)

lemma sint_word_of_int_16_in_range:
  "- 32768 \<le> k \<Longrightarrow> k < 32768 \<Longrightarrow> sint (word_of_int k :: int16) = k"
  by (simp add: sint_word_of_int_16)

lemma js_truncate_bounds: "\<bar>real_of_int (js_truncate x) - x\<bar> < 1"
  unfolding js_truncate_def by (cases "x < 0") (simp_all; linarith)+

lemma js_truncate_range:
  assumes "- 32769 < x" "x < 32768"
  shows "- 32768 \<le> js_truncate x" "js_truncate x < 32768"
  using assms unfolding js_truncate_def by (simp_all; linarith)+

lemma decodeAudioData_odd: "odd (length bytes) \<Longrightarrow> decodeAudioData bytes = Inl RangeError"
  by (simp add: decodeAudioData_def Int16Array_of_buffer_def)

lemma decodeAudioData_even:
  assumes "bytes \<noteq> []" "even (length bytes)"
  shows "decodeAudioData bytes =
         Inr \<lparr>numberOfChannels = 1, sampleRate = 24000,
              channelData = map (\<lambda>v. Finite (real_of_int (sint v) / 32768)) (int16_view bytes)\<rparr>"
proof -
  from assms have "length bytes div 2 \<noteq> 0" by (cases bytes) auto
  with assms(2) show ?thesis
    by (simp add: decodeAudioData_def Int16Array_of_buffer_def createBuffer_def
        SAMPLE_RATE_OUT_def length_int16_view)
qed

lemma decode_payload_createBlob:
  assumes "samples \<noteq> []"
  shows "data (createBlob samples) =
           Some (encode (Uint8Array_of_buffer (map (\<lambda>x. ToInt16 (times_32768 x)) samples)))"
    and "decode_payload (encode (Uint8Array_of_buffer (map (\<lambda>x. ToInt16 (times_32768 x)) samples))) =
         Inr \<lparr>numberOfChannels = 1, sampleRate = 24000,
              channelData =
                map (\<lambda>x. Finite (real_of_int (sint (ToInt16 (times_32768 x))) / 32768)) samples\<rparr>"
proof -
  let ?ws = "map (\<lambda>x. ToInt16 (times_32768 x)) samples"
  show "data (createBlob samples) = Some (encode (Uint8Array_of_buffer ?ws))"
    by (simp add: createBlob_def)
  have ne: "Uint8Array_of_buffer ?ws \<noteq> []"
    using assms length_Uint8Array_of_buffer [of ?ws] by (cases samples) auto
  have ev: "even (length (Uint8Array_of_buffer ?ws))"
    by (simp add: length_Uint8Array_of_buffer)
  show "decode_payload (encode (Uint8Array_of_buffer ?ws)) =
         Inr \<lparr>numberOfChannels = 1, sampleRate = 24000,
              channelData =
                map (\<lambda>x. Finite (real_of_int (sint (ToInt16 (times_32768 x))) / 32768)) samples\<rparr>"
    by (simp add: decode_payload_def decode_encode decodeAudioData_even [OF ne ev]
        int16_view_bytes comp_def)
qed

lemma quantize_in_range:
  assumes "- 1 \<le> r" "r < 1"
  shows "\<bar>real_of_int (sint (ToInt16 (times_32768 (Finite r)))) / 32768 - r\<bar> < 1 / 32768"
proof -
  let ?x = "r * 32768"
  from assms have range: "- 32769 < ?x" "?x < 32768" by simp_all
  have "sint (ToInt16 (times_32768 (Finite r))) = js_truncate ?x"
    by (simp add: ToInt16_def times_32768_def
        sint_word_of_int_16_in_range [OF js_truncate_range [OF range]])
  moreover have "\<bar>real_of_int (js_truncate ?x) - ?x\<bar> < 1" by (rule js_truncate_bounds)
  ultimately show ?thesis by (simp add: field_simps abs_if split: if_splits)
qed

section \<open>The handler's message and payload\<close>

lemma base64Audio_audio_message: "base64Audio (audio_message base64) = Some base64"
  by (simp add: base64Audio_def audio_message_def)

lemma decode_empty: "decode [] = Inr []"
  by (simp add: decode_def atob_def strip_padding_def ends_with_pad_def)

lemma decode_AA: "decode ''AA=='' = Inr [0]"
  by (simp add: decode_def atob_def is_ascii_whitespace_def strip_padding_def ends_with_pad_def
      base64_index_def base64_alphabet_def)

lemma ToInt16_times_finite:
  "sint (ToInt16 (times_32768 (Finite s))) = (js_truncate (s * 32768) + 32768) mod 65536 - 32768"
  by (simp add: ToInt16_def times_32768_def sint_word_of_int_16)

section \<open>Rounding to double precision\<close>

lemma round_half_even_of_int: "round_half_even (of_int m) = m"
  by (simp add: round_half_even_def)

lemma round_half_even_range:
  "\<lfloor>y\<rfloor> \<le> round_half_even y \<and> round_half_even y \<le> \<lfloor>y\<rfloor> + 1"
  by (simp add: round_half_even_def Let_def)

lemma round_half_even_mono:
  assumes "x \<le> y"
  shows "round_half_even x \<le> round_half_even y"
proof (cases "\<lfloor>x\<rfloor> = \<lfloor>y\<rfloor>")
  case True
  with assms show ?thesis by (auto simp: round_half_even_def Let_def)
next
  case False
  with assms have "\<lfloor>x\<rfloor> + 1 \<le> \<lfloor>y\<rfloor>" using floor_mono [of x y] by linarith
  with round_half_even_range [of x] round_half_even_range [of y] show ?thesis by linarith
qed

lemma binade_range: "- 1022 \<le> binade k x \<and> binade k x \<le> int k - 1022"
  by (induction k) auto

lemma binade_lower: "binade k x \<noteq> - 1022 \<Longrightarrow> 2 powi (binade k x) \<le> x"
  by (induction k) (auto split: if_splits)

lemma binade_upper: "binade k x = int k - 1022 \<or> x < 2 powi (binade k x + 1)"
proof (induction k)
  case 0
  show ?case by simp
next
  case (Suc k)
  show ?case
  proof (cases "2 powi (int (Suc k) - 1022) \<le> x")
    case True
    then show ?thesis by simp
  next
    case False
    then have lt: "x < 2 powi (int k - 1022 + 1)" by (simp add: algebra_simps)
    from Suc show ?thesis
    proof
      assume "binade k x = int k - 1022"
      with lt False show ?thesis by simp
    next
      assume "x < 2 powi (binade k x + 1)"
      with False show ?thesis by simp
    qed
  qed
qed

lemma binade_mono: "x \<le> y \<Longrightarrow> binade k x \<le> binade k y"
proof (induction k)
  case 0
  show ?case by simp
next
  case (Suc k)
  from binade_range [of k x] have "binade k x \<le> int (Suc k) - 1022" by simp
  with Suc show ?case by auto
qed

lemma binade_eq:
  assumes "- 1022 \<le> e" "e \<le> int k - 1022" "e = - 1022 \<or> 2 powi e \<le> x" "x < 2 powi (e + 1)"
  shows "binade k x = e"
proof (rule antisym)
  show "binade k x \<le> e"
  proof (cases "binade k x = - 1022")
    case True
    with assms(1) show ?thesis by simp
  next
    case False
    then have "2 powi (binade k x) \<le> x" by (rule binade_lower)
    with assms(4) have "(2 :: real) powi (binade k x) < 2 powi (e + 1)" by simp
    then have "binade k x < e + 1"
      using power_int_increasing [of "e + 1" "binade k x" "2 :: real"] by (cases "binade k x < e + 1") auto
    then show ?thesis by simp
  qed
  show "e \<le> binade k x"
  proof (cases "e = - 1022")
    case True
    with binade_range [of k x] show ?thesis by simp
  next
    case False
    with assms(3) have low: "2 powi e \<le> x" by simp
    have "(2 :: real) powi (e + 1) \<le> 2 powi (int k - 1022 + 1)"
      using assms(2) by (intro power_int_increasing) simp_all
    with assms(4) have "x < 2 powi (int k - 1022 + 1)" by simp
    from binade_upper [of k x] have "x < 2 powi (binade k x + 1)"
    proof
      assume "binade k x = int k - 1022"
      with \<open>x < 2 powi (int k - 1022 + 1)\<close> show ?thesis by simp
    qed
    with low have "(2 :: real) powi e < 2 powi (binade k x + 1)" by simp
    then have "e < binade k x + 1"
      using power_int_increasing [of "binade k x + 1" e "2 :: real"] by (cases "e < binade k x + 1") auto
    then show ?thesis by simp
  qed
qed


lemma exponent_range: "- 1022 \<le> exponent x \<and> exponent x \<le> 1023"
  using binade_range [of 2045 x] by (simp add: exponent_def)

lemma exponent_lower: "exponent x \<noteq> - 1022 \<Longrightarrow> 2 powi (exponent x) \<le> x"
  unfolding exponent_def by (rule binade_lower)

lemma exponent_upper: "exponent x \<noteq> 1023 \<Longrightarrow> x < 2 powi (exponent x + 1)"
  using binade_upper [of 2045 x] by (simp add: exponent_def)

lemma exponent_upper': "x < 2 ^ 1024 \<Longrightarrow> x < 2 powi (exponent x + 1)"
  by (cases "exponent x = 1023") (simp_all add: exponent_upper)

lemma exponent_mono: "x \<le> y \<Longrightarrow> exponent x \<le> exponent y"
  unfolding exponent_def by (rule binade_mono)

lemma exponent_eq:
  assumes "- 1022 \<le> e" "e \<le> 1023" "e = - 1022 \<or> 2 powi e \<le> x" "x < 2 powi (e + 1)"
  shows "exponent x = e"
  unfolding exponent_def using assms by (intro binade_eq) simp_all

lemma quantum_pos: "0 < quantum x"
  by (simp add: quantum_def)

lemma pow2_split: "(2 :: real) powi (e + 1) = 2 ^ 53 * 2 powi (e - 52)"
proof -
  have "e + 1 = 53 + (e - 52)" by arith
  then have "(2 :: real) powi (e + 1) = 2 powi (53 + (e - 52))" by (rule arg_cong)
  also have "\<dots> = 2 powi 53 * 2 powi (e - 52)" by (rule power_int_add) simp
  finally show ?thesis by simp
qed

lemma pow2_split': "(2 :: real) powi e = 2 ^ 52 * 2 powi (e - 52)"
proof -
  have "e = 52 + (e - 52)" by arith
  then have "(2 :: real) powi e = 2 powi (52 + (e - 52))" by (rule arg_cong)
  also have "\<dots> = 2 powi 52 * 2 powi (e - 52)" by (rule power_int_add) simp
  finally show ?thesis by simp
qed

lemma significand_nonneg: "0 \<le> x \<Longrightarrow> 0 \<le> round_half_even (x / quantum x)"
proof -
  assume "0 \<le> x"
  then have "of_int 0 \<le> x / quantum x" using quantum_pos [of x] by simp
  from round_half_even_mono [OF this] show ?thesis by (simp only: round_half_even_of_int)
qed

lemma significand_upper:
  assumes "x < 2 powi (exponent x + 1)"
  shows "round_half_even (x / quantum x) \<le> 2 ^ 53"
proof -
  from assms have "x < 2 ^ 53 * quantum x" by (simp only: pow2_split quantum_def)
  then have "x / quantum x \<le> of_int (2 ^ 53)"
    using quantum_pos [of x] by (simp add: pos_divide_le_eq)
  from round_half_even_mono [OF this] show ?thesis by (simp only: round_half_even_of_int)
qed

lemma significand_lower:
  assumes "2 powi (exponent x) \<le> x"
  shows "2 ^ 52 \<le> round_half_even (x / quantum x)"
proof -
  from assms have "2 ^ 52 * quantum x \<le> x" by (simp only: pow2_split' [of "exponent x"] quantum_def)
  then have "of_int (2 ^ 52) \<le> x / quantum x"
    using quantum_pos [of x] by (simp add: pos_le_divide_eq)
  from round_half_even_mono [OF this] show ?thesis by (simp only: round_half_even_of_int)
qed

text \<open>The rounded value, before the test for overflow.\<close>

lemma rounded_upper:
  assumes "x < 2 powi (exponent x + 1)"
  shows "of_int (round_half_even (x / quantum x)) * quantum x \<le> 2 powi (exponent x + 1)"
proof -
  have "real_of_int (round_half_even (x / quantum x)) \<le> 2 ^ 53"
    using significand_upper [OF assms] by (metis of_int_le_iff of_int_numeral of_int_power)
  then have "of_int (round_half_even (x / quantum x)) * quantum x \<le> 2 ^ 53 * quantum x"
    using quantum_pos [of x] by (simp add: mult_right_mono)
  then show ?thesis by (simp only: pow2_split quantum_def)
qed

lemma rounded_lower:
  assumes "2 powi (exponent x) \<le> x"
  shows "2 powi (exponent x) \<le> of_int (round_half_even (x / quantum x)) * quantum x"
proof -
  have "2 ^ 52 \<le> real_of_int (round_half_even (x / quantum x))"
    using significand_lower [OF assms] by (metis of_int_le_iff of_int_numeral of_int_power)
  then have "2 ^ 52 * quantum x \<le> of_int (round_half_even (x / quantum x)) * quantum x"
    using quantum_pos [of x] by (simp add: mult_right_mono)
  then show ?thesis by (simp only: pow2_split' [of "exponent x"] quantum_def)
qed

lemma rounded_nonneg:
  "0 \<le> x \<Longrightarrow> 0 \<le> of_int (round_half_even (x / quantum x)) * quantum x"
  using significand_nonneg [of x] quantum_pos [of x] by simp

lemma rounded_mono:
  assumes "0 \<le> x" "x \<le> y"
    and "of_int (round_half_even (y / quantum y)) * quantum y < 2 ^ 1024"
  shows "of_int (round_half_even (x / quantum x)) * quantum x \<le>
         of_int (round_half_even (y / quantum y)) * quantum y"
proof (cases "exponent x = exponent y")
  case True
  then have q: "quantum x = quantum y" by (simp add: quantum_def)
  from assms(2) have "x / quantum y \<le> y / quantum y"
    using quantum_pos [of y] by (simp add: divide_right_mono)
  then have "round_half_even (x / quantum y) \<le> round_half_even (y / quantum y)"
    by (rule round_half_even_mono)
  then have "real_of_int (round_half_even (x / quantum y)) \<le>
             real_of_int (round_half_even (y / quantum y))" by simp
  then show ?thesis
    unfolding q using quantum_pos [of y] by (simp add: mult_right_mono)
next
  case False
  with exponent_mono [OF assms(2)] have lt: "exponent x < exponent y" by simp
  with exponent_range [of y] have "exponent x \<noteq> 1023" by simp
  then have "x < 2 powi (exponent x + 1)" by (rule exponent_upper)
  then have "of_int (round_half_even (x / quantum x)) * quantum x \<le> 2 powi (exponent x + 1)"
    by (rule rounded_upper)
  also have "(2 :: real) powi (exponent x + 1) \<le> 2 powi (exponent y)"
    using lt by (intro power_int_increasing) simp_all
  also have "\<dots> \<le> of_int (round_half_even (y / quantum y)) * quantum y"
  proof (rule rounded_lower)
    from lt exponent_range [of x] have "exponent y \<noteq> - 1022" by simp
    then show "2 powi (exponent y) \<le> y" by (rule exponent_lower)
  qed
  finally show ?thesis .
qed

lemma round_pos_cases:
  obtains (overflow) "round_pos x = PosInf"
      "2 ^ 1024 \<le> of_int (round_half_even (x / quantum x)) * quantum x"
  | (finite) "round_pos x = Finite (of_int (round_half_even (x / quantum x)) * quantum x)"
      "of_int (round_half_even (x / quantum x)) * quantum x < 2 ^ 1024"
  by (cases "2 ^ 1024 \<le> of_int (round_half_even (x / quantum x)) * quantum x")
    (simp_all add: round_pos_def Let_def)

lemma round_pos_mono:
  assumes "0 \<le> x" "x \<le> y"
  shows "number_le (round_pos x) (round_pos y)"
proof (cases rule: round_pos_cases [of y])
  case overflow
  then show ?thesis by (cases rule: round_pos_cases [of x]) simp_all
next
  case finite
  note le = rounded_mono [OF assms finite(2)]
  with finite(2) have "of_int (round_half_even (x / quantum x)) * quantum x < 2 ^ 1024"
    by simp
  then have "round_pos x = Finite (of_int (round_half_even (x / quantum x)) * quantum x)"
    by (simp add: round_pos_def Let_def)
  with finite(1) le show ?thesis by simp
qed


lemma rounded_overflow:
  assumes "2 powi (exponent x + 1) \<le> x"
  shows "2 powi (exponent x + 1) \<le> of_int (round_half_even (x / quantum x)) * quantum x"
proof -
  from assms have "2 ^ 53 * quantum x \<le> x" by (simp only: pow2_split quantum_def)
  then have "of_int (2 ^ 53) \<le> x / quantum x"
    using quantum_pos [of x] by (simp add: pos_le_divide_eq)
  from round_half_even_mono [OF this]
  have "2 ^ 53 \<le> round_half_even (x / quantum x)" by (simp only: round_half_even_of_int)
  then have "2 ^ 53 \<le> real_of_int (round_half_even (x / quantum x))"
    by (metis of_int_le_iff of_int_numeral of_int_power)
  then have "2 ^ 53 * quantum x \<le> of_int (round_half_even (x / quantum x)) * quantum x"
    using quantum_pos [of x] by (simp add: mult_right_mono)
  then show ?thesis by (simp only: pow2_split quantum_def)
qed

lemma finite_below_next_binade:
  assumes "of_int (round_half_even (x / quantum x)) * quantum x < 2 ^ 1024"
  shows "x < 2 powi (exponent x + 1)"
proof (cases "exponent x = 1023")
  case False
  then show ?thesis by (rule exponent_upper)
next
  case True
  show ?thesis
  proof (rule ccontr)
    assume "\<not> x < 2 powi (exponent x + 1)"
    then have "2 powi (exponent x + 1) \<le> x" by simp
    from rounded_overflow [OF this] True assms show False by simp
  qed
qed

lemma round_pos_eval:
  assumes "- 1022 \<le> e" "e \<le> 1023" "e = - 1022 \<or> 2 powi e \<le> x" "x < 2 powi (e + 1)"
    and "r = of_int (round_half_even (x / 2 powi (e - 52))) * 2 powi (e - 52)"
    and "r < 2 ^ 1024"
  shows "round_pos x = Finite r"
proof -
  have "exponent x = e" using assms(1-4) by (rule exponent_eq)
  with assms(5,6) show ?thesis by (simp add: round_pos_def quantum_def Let_def)
qed

lemma round_pos_idem:
  assumes "round_pos x = Finite r"
  shows "round_pos r = Finite r"
proof (cases rule: round_pos_cases [of x])
  case overflow
  with assms show ?thesis by simp
next
  case finite
  let ?e = "exponent x"
  let ?n = "round_half_even (x / quantum x)"
  from finite(1) assms have r: "r = of_int ?n * quantum x" by simp
  from finite(2) have below: "x < 2 powi (?e + 1)" by (rule finite_below_next_binade)
  from finite(2) r have small: "r < 2 ^ 1024" by simp
  from significand_upper [OF below] have n_le: "?n \<le> 2 ^ 53" .
  show ?thesis
  proof (cases "?n = 2 ^ 53")
    case True
    then have "real_of_int ?n = 2 ^ 53" by simp
    with r have r_pow: "r = 2 powi (?e + 1)" by (simp only: pow2_split quantum_def)
    with small have "(2 :: real) powi (?e + 1) < 2 powi 1024" by simp
    then have e_lt: "?e + 1 < 1024"
      using power_int_increasing [of 1024 "?e + 1" "2 :: real"] by (cases "?e + 1 < 1024") auto
    have "(2 :: real) powi (?e + 1) < 2 powi (?e + 1 + 1)"
      by (intro power_int_strict_increasing) simp_all
    with r_pow have up: "r < 2 powi (?e + 1 + 1)" by simp
    have r_eq: "r = of_int (round_half_even (r / 2 powi (?e + 1 - 52))) * 2 powi (?e + 1 - 52)"
    proof -
      have "r = 2 ^ 52 * 2 powi (?e + 1 - 52)"
        unfolding r_pow by (rule pow2_split')
      moreover from this have "r / 2 powi (?e + 1 - 52) = of_int (2 ^ 52)" by simp
      ultimately show ?thesis by (simp only: round_half_even_of_int) simp
    qed
    show ?thesis
    proof (rule round_pos_eval [OF _ _ _ up r_eq small])
      from exponent_range [of x] show "- 1022 \<le> ?e + 1" by simp
      from e_lt show "?e + 1 \<le> 1023" by simp
      from r_pow show "?e + 1 = - 1022 \<or> 2 powi (?e + 1) \<le> r" by simp
    qed
  next
    case False
    with n_le have "?n < 2 ^ 53" by simp
    then have "real_of_int ?n < 2 ^ 53"
      by (metis of_int_less_iff of_int_numeral of_int_power)
    then have "of_int ?n * quantum x < 2 ^ 53 * quantum x"
      using quantum_pos [of x] by (simp add: mult_strict_right_mono)
    with r have up: "r < 2 powi (?e + 1)" by (simp only: pow2_split quantum_def)
    have low: "?e = - 1022 \<or> 2 powi ?e \<le> r"
    proof (cases "?e = - 1022")
      case False
      then have "2 powi ?e \<le> x" by (rule exponent_lower)
      from rounded_lower [OF this] r show ?thesis by simp
    qed simp
    have r_eq: "r = of_int (round_half_even (r / 2 powi (?e - 52))) * 2 powi (?e - 52)"
    proof -
      have "r / 2 powi (?e - 52) = of_int ?n" using r by (simp add: quantum_def)
      then show ?thesis using r by (simp only: round_half_even_of_int quantum_def)
    qed
    from exponent_range [of x] have "- 1022 \<le> ?e" "?e \<le> 1023" by simp_all
    then show ?thesis using low up r_eq small by (rule round_pos_eval)
  qed
qed

lemma round_double_nonneg: "0 \<le> x \<Longrightarrow> round_double x = round_pos x"
  by (simp add: round_double_def)

lemma round_pos_0: "round_pos 0 = Finite 0"
  by (rule round_pos_eval [of "- 1022"]) (simp_all add: round_half_even_def)

lemma is_double_0: "is_double 0"
  by (simp add: is_double_def round_double_def round_pos_0)

lemma round_double_nonneg_cases:
  assumes "0 \<le> x"
  obtains (overflow) "round_double x = PosInf"
  | (finite) r where "round_double x = Finite r" "0 \<le> r" "is_double r"
proof (cases rule: round_pos_cases [of x])
  case overflow
  note o = overflow
  show ?thesis by (rule that(1)) (simp add: round_double_nonneg [OF assms] o(1))
next
  case finite
  let ?r = "of_int (round_half_even (x / quantum x)) * quantum x"
  have nonneg: "0 \<le> ?r" using assms by (rule rounded_nonneg)
  have "round_pos ?r = Finite ?r" using finite(1) by (rule round_pos_idem)
  with nonneg have "is_double ?r" by (simp add: is_double_def round_double_def)
  with finite(1) nonneg show ?thesis
    using that(2) [of ?r] by (simp add: round_double_nonneg [OF assms])
qed

lemma round_double_add_nonneg:
  assumes "0 \<le> a" "is_double a" "0 \<le> d"
  obtains (overflow) "round_double (a + d) = PosInf"
  | (finite) r where "round_double (a + d) = Finite r" "a \<le> r" "is_double r"
proof -
  from assms(1,3) have sum: "0 \<le> a + d" by simp
  from assms(1,2) have a: "round_pos a = Finite a"
    by (simp add: is_double_def round_double_def)
  from assms(3) have "a \<le> a + d" by simp
  from round_pos_mono [OF assms(1) this] a
  have le: "number_le (Finite a) (round_pos (a + d))" by simp
  from sum show ?thesis
  proof (cases rule: round_double_nonneg_cases)
    case overflow
    then show ?thesis by (rule that(1))
  next
    case (finite r)
    with le sum have "a \<le> r" by (simp add: round_double_nonneg)
    with finite show ?thesis using that(2) by blast
  qed
qed

section \<open>Numbers of the handler\<close>

lemma round_pos_not_NaN: "round_pos x \<noteq> NaN"
  by (simp add: round_pos_def Let_def)

lemma round_double_not_NaN: "round_double x \<noteq> NaN"
  using round_pos_not_NaN [of x] round_pos_not_NaN [of "- x"]
  by (cases "round_pos (- x)") (simp_all add: round_double_def negate_def)

lemma number_le_refl: "a \<noteq> NaN \<Longrightarrow> number_le a a"
  by (cases a) simp_all

lemma number_le_trans: "number_le a b \<Longrightarrow> number_le b c \<Longrightarrow> number_le a c"
  by (cases a; cases b; cases c) simp_all

lemma Math_max_ge: "a \<noteq> NaN \<Longrightarrow> number_le a (Math_max a (Finite t))"
  by (cases a) simp_all

lemma Math_max_ge_clock: "a \<noteq> NaN \<Longrightarrow> number_le (Finite t) (Math_max a (Finite t))"
  by (cases a) simp_all

lemma Math_max_not_NaN: "a \<noteq> NaN \<Longrightarrow> Math_max a (Finite t) \<noteq> NaN"
  by (cases a) simp_all

lemma Math_max_absorb: "number_le (Finite t) a \<Longrightarrow> Math_max a (Finite t) = a"
  by (cases a) simp_all

lemma valid_cursor_not_NaN: "valid_cursor a \<Longrightarrow> a \<noteq> NaN"
  by (cases a) simp_all

lemma valid_cursor_Math_max:
  "valid_cursor a \<Longrightarrow> is_double t \<Longrightarrow> valid_cursor (Math_max a (Finite t))"
  by (cases a) (auto simp: max_def)

lemma is_double_1: "is_double 1"
proof -
  have "round_pos 1 = Finite 1"
    by (rule round_pos_eval [of 0]) (simp_all add: round_half_even_def)
  then show ?thesis by (simp add: is_double_def round_double_def)
qed

section \<open>The handler and the playback cursor\<close>

lemma decode_payload_buffer:
  assumes "decode_payload base64 = Inr buffer"
  shows "numberOfChannels buffer = 1" "sampleRate buffer = 24000"
    "duration buffer = round_double (real (length (channelData buffer)) / 24000)"
proof -
  from assms obtain bytes where "decodeAudioData bytes = Inr buffer"
    by (auto simp: decode_payload_def split: sum.splits)
  then show "numberOfChannels buffer = 1" "sampleRate buffer = 24000"
    by (auto simp: decodeAudioData_def createBuffer_def SAMPLE_RATE_OUT_def Let_def
        split: sum.splits if_splits)
  then show "duration buffer = round_double (real (length (channelData buffer)) / 24000)"
    by (simp add: duration_def)
qed

text \<open>
  Adding the duration of a decoded buffer to a start time: the sum is never \<open>NaN\<close>, and
  from a double that is not negative it is a cursor that is not below the start time.
\<close>

lemma cursor_step_not_NaN:
  assumes "decode_payload base64 = Inr buffer"
  shows "js_add (Finite w) (duration buffer) \<noteq> NaN"
proof -
  let ?x = "real (length (channelData buffer)) / 24000"
  have d: "duration buffer = round_double ?x" using assms by (rule decode_payload_buffer(3))
  have "0 \<le> ?x" by simp
  then show ?thesis
  proof (cases rule: round_double_nonneg_cases)
    case overflow
    with d show ?thesis by simp
  next
    case (finite r)
    with d show ?thesis by (simp add: round_double_not_NaN)
  qed
qed

lemma cursor_step:
  assumes "decode_payload base64 = Inr buffer" "0 \<le> w" "is_double w"
  shows "valid_cursor (js_add (Finite w) (duration buffer)) \<and>
         number_le (Finite w) (js_add (Finite w) (duration buffer))"
proof -
  let ?x = "real (length (channelData buffer)) / 24000"
  have d: "duration buffer = round_double ?x" using assms(1) by (rule decode_payload_buffer(3))
  have "0 \<le> ?x" by simp
  then show ?thesis
  proof (cases rule: round_double_nonneg_cases)
    case overflow
    with d show ?thesis by simp
  next
    case (finite r)
    from assms(2,3) finite(2) show ?thesis
    proof (cases rule: round_double_add_nonneg)
      case overflow
      with d finite(1) show ?thesis by simp
    next
      case (finite r')
      with assms(2) d \<open>round_double ?x = Finite r\<close> show ?thesis by simp
    qed
  qed
qed

lemma onmessage_ignored:
  "base64Audio msg = None \<or> base64Audio msg = Some [] \<or> ctxRef = None \<Longrightarrow>
   onmessage msg ctxRef s = (None, s)"
  by (auto simp: onmessage_def split: option.splits)

lemma onmessage_failed:
  assumes "base64Audio msg = Some base64" "base64 \<noteq> []" "decode_payload base64 = Inl e"
  shows "onmessage msg (Some ctx) s =
         (Some e, s\<lparr>nextStartTime := Math_max (nextStartTime s) (Finite (currentTime ctx))\<rparr>)"
  using assms by (simp add: onmessage_def Let_def)

lemma onmessage_started:
  assumes "base64Audio msg = Some base64" "base64 \<noteq> []" "decode_payload base64 = Inr buffer"
    and "Math_max (nextStartTime s) (Finite (currentTime ctx)) = Finite w" "0 \<le> w"
  shows "onmessage msg (Some ctx) s =
         (None, s\<lparr>nextStartTime := js_add (Finite w) (duration buffer),
                  started := started s @ [(w, buffer)]\<rparr>)"
  using assms by (simp add: onmessage_def Let_def)

lemma onmessage_not_started:
  assumes "base64Audio msg = Some base64" "base64 \<noteq> []" "decode_payload base64 = Inr buffer"
    and "\<not> (\<exists>w. Math_max (nextStartTime s) (Finite (currentTime ctx)) = Finite w \<and> 0 \<le> w)"
  shows "\<exists>e. onmessage msg (Some ctx) s =
         (Some e, s\<lparr>nextStartTime := Math_max (nextStartTime s) (Finite (currentTime ctx))\<rparr>)"
  using assms
  by (cases "Math_max (nextStartTime s) (Finite (currentTime ctx))")
    (simp_all add: onmessage_def Let_def)

text \<open>The three outcomes of a call, together.\<close>

lemma onmessage_cases:
  obtains (ignored) "onmessage msg ctxRef s = (None, s)"
  | (failed) e ctx where "ctxRef = Some ctx"
      "onmessage msg ctxRef s =
         (Some e, s\<lparr>nextStartTime := Math_max (nextStartTime s) (Finite (currentTime ctx))\<rparr>)"
  | (started) ctx base64 buffer w where "ctxRef = Some ctx"
      "decode_payload base64 = Inr buffer"
      "Math_max (nextStartTime s) (Finite (currentTime ctx)) = Finite w" "0 \<le> w"
      "onmessage msg ctxRef s =
         (None, s\<lparr>nextStartTime := js_add (Finite w) (duration buffer),
                  started := started s @ [(w, buffer)]\<rparr>)"
proof (cases "base64Audio msg = None \<or> base64Audio msg = Some [] \<or> ctxRef = None")
  case True
  then show ?thesis using ignored onmessage_ignored by blast
next
  case False
  then obtain base64 ctx where b: "base64Audio msg = Some base64" "base64 \<noteq> []"
    and c: "ctxRef = Some ctx" by auto
  show ?thesis
  proof (cases "decode_payload base64")
    case (Inl e)
    with b c show ?thesis using failed onmessage_failed by blast
  next
    case (Inr buffer)
    show ?thesis
    proof (cases "\<exists>w. Math_max (nextStartTime s) (Finite (currentTime ctx)) = Finite w \<and> 0 \<le> w")
      case True
      then obtain w where "Math_max (nextStartTime s) (Finite (currentTime ctx)) = Finite w"
        "0 \<le> w" by blast
      with b c Inr show ?thesis using started onmessage_started by blast
    next
      case False
      from onmessage_not_started [OF b Inr False] c show ?thesis using failed by blast
    qed
  qed
qed

lemma nextStartTime_onmessage:
  assumes "valid_cursor (nextStartTime s)" "is_double (currentTime ctx)"
  shows "number_le (nextStartTime s) (nextStartTime (snd (onmessage msg (Some ctx) s))) \<and>
         valid_cursor (nextStartTime (snd (onmessage msg (Some ctx) s)))"
proof (cases rule: onmessage_cases [of msg "Some ctx" s])
  case ignored
  with assms(1) show ?thesis by (simp add: number_le_refl valid_cursor_not_NaN)
next
  case (failed e ctx')
  with assms show ?thesis
    by (simp add: Math_max_ge valid_cursor_not_NaN valid_cursor_Math_max)
next
  case (started ctx' base64 buffer w)
  then have ctx: "ctx' = ctx" by simp
  from assms have "valid_cursor (Math_max (nextStartTime s) (Finite (currentTime ctx)))"
    by (rule valid_cursor_Math_max)
  with started(3) ctx have w: "0 \<le> w" "is_double w" by simp_all
  from cursor_step [OF started(2) w]
  have step: "valid_cursor (js_add (Finite w) (duration buffer))"
    "number_le (Finite w) (js_add (Finite w) (duration buffer))" by simp_all
  have "number_le (nextStartTime s) (Finite w)"
    using Math_max_ge [OF valid_cursor_not_NaN [OF assms(1)], of "currentTime ctx"]
      started(3) ctx by simp
  from number_le_trans [OF this step(2)] step(1) started(5) show ?thesis by simp
qed

lemma nextStartTime_deliver:
  assumes "valid_cursor (nextStartTime s)" "double_clock ms"
  shows "number_le (nextStartTime s) (nextStartTime (deliver ms s)) \<and>
         valid_cursor (nextStartTime (deliver ms s))"
  using assms
proof (induction ms arbitrary: s)
  case Nil
  then show ?case by (simp add: number_le_refl valid_cursor_not_NaN)
next
  case (Cons m ms)
  obtain msg t where m: "m = (msg, t)" by (cases m)
  let ?s = "snd (onmessage msg (Some \<lparr>currentTime = t\<rparr>) s)"
  from Cons.prems(2) have t: "is_double t" and rest: "double_clock ms" by (simp_all add: m)
  from nextStartTime_onmessage [OF Cons.prems(1), of "\<lparr>currentTime = t\<rparr>" msg] t
  have one: "number_le (nextStartTime s) (nextStartTime ?s)" "valid_cursor (nextStartTime ?s)"
    by simp_all
  from Cons.IH [OF one(2) rest]
  have more: "number_le (nextStartTime ?s) (nextStartTime (deliver ms ?s))"
    "valid_cursor (nextStartTime (deliver ms ?s))" by simp_all
  from number_le_trans [OF one(1) more(1)] more(2) show ?case by (simp add: m)
qed

text \<open>Start times in order.\<close>

lemma sorted_snoc_last:
  fixes xs :: "real list"
  assumes "sorted xs" "xs = [] \<or> last xs \<le> x"
  shows "sorted (xs @ [x])"
proof (cases "xs = []")
  case True
  then show ?thesis by simp
next
  case False
  with assms(2) have l: "last xs \<le> x" by simp
  have "y \<le> x" if "y \<in> set xs" for y
  proof -
    from that obtain i where i: "i < length xs" "xs ! i = y" by (auto simp: in_set_conv_nth)
    from i(1) have "xs ! i \<le> xs ! (length xs - 1)"
      by (intro sorted_nth_mono [OF assms(1)]) simp_all
    with i(2) False have "y \<le> last xs" by (simp add: last_conv_nth)
    with l show ?thesis by simp
  qed
  with assms(1) show ?thesis by (simp add: sorted_append)
qed

lemma starts_by_mono: "starts_by c xs \<Longrightarrow> number_le c c' \<Longrightarrow> starts_by c' xs"
  by (auto simp: starts_by_def intro: number_le_trans)

lemma onmessage_sorted:
  assumes "sorted (map fst (started s))" "starts_by (nextStartTime s) (started s)"
    and "valid_cursor (nextStartTime s)" "is_double (currentTime ctx)"
  shows "sorted (map fst (started (snd (onmessage msg (Some ctx) s)))) \<and>
         starts_by (nextStartTime (snd (onmessage msg (Some ctx) s)))
           (started (snd (onmessage msg (Some ctx) s)))"
proof (cases rule: onmessage_cases [of msg "Some ctx" s])
  case ignored
  with assms show ?thesis by simp
next
  case (failed e ctx')
  have "number_le (nextStartTime s) (Math_max (nextStartTime s) (Finite (currentTime ctx)))"
    using assms(3) by (intro Math_max_ge valid_cursor_not_NaN)
  from starts_by_mono [OF assms(2) this] failed assms(1) show ?thesis by simp
next
  case (started ctx' base64 buffer w)
  then have ctx: "ctx' = ctx" by simp
  from assms(3,4) have "valid_cursor (Math_max (nextStartTime s) (Finite (currentTime ctx)))"
    by (rule valid_cursor_Math_max)
  with started(3) ctx have w: "0 \<le> w" "is_double w" by simp_all
  have raised: "number_le (nextStartTime s) (Finite w)"
    using Math_max_ge [OF valid_cursor_not_NaN [OF assms(3)], of "currentTime ctx"]
      started(3) ctx by simp
  from starts_by_mono [OF assms(2) raised]
  have "started s = [] \<or> last (map fst (started s)) \<le> w"
    by (cases "started s = []") (auto simp: starts_by_def last_map)
  with assms(1) have "sorted (map fst (started s) @ [w])"
    by (intro sorted_snoc_last) simp_all
  moreover from cursor_step [OF started(2) w]
  have "number_le (Finite w) (js_add (Finite w) (duration buffer))" by simp
  ultimately show ?thesis using started(5) by (simp add: starts_by_def)
qed

lemma deliver_sorted:
  assumes "sorted (map fst (started s))" "starts_by (nextStartTime s) (started s)"
    and "valid_cursor (nextStartTime s)" "double_clock ms"
  shows "sorted (map fst (started (deliver ms s)))"
  using assms
proof (induction ms arbitrary: s)
  case Nil
  then show ?case by simp
next
  case (Cons m ms)
  obtain msg t where m: "m = (msg, t)" by (cases m)
  let ?s = "snd (onmessage msg (Some \<lparr>currentTime = t\<rparr>) s)"
  from Cons.prems(4) have t: "is_double t" and rest: "double_clock ms" by (simp_all add: m)
  from onmessage_sorted [OF Cons.prems(1-3), of "\<lparr>currentTime = t\<rparr>" msg] t
  have 1: "sorted (map fst (started ?s))" "starts_by (nextStartTime ?s) (started ?s)"
    by simp_all
  from nextStartTime_onmessage [OF Cons.prems(3), of "\<lparr>currentTime = t\<rparr>" msg] t
  have 2: "valid_cursor (nextStartTime ?s)" by simp
  from Cons.IH [OF 1 2 rest] show ?case by (simp add: m)
qed

text \<open>No source before the end of the one before it, as the program computes the end.\<close>

lemma no_overlap_double_snoc:
  "no_overlap_double (xs @ [(t, b)]) = (no_overlap_double xs \<and> ends_by (Finite t) xs)"
  by (induction xs rule: no_overlap_double.induct) (auto simp: ends_by_def)

lemma gapless_double_snoc:
  "gapless_double (xs @ [(t, b)]) = (gapless_double xs \<and> ends_at (Finite t) xs)"
  by (induction xs rule: gapless_double.induct) (auto simp: ends_at_def)

lemma ends_by_mono: "ends_by c xs \<Longrightarrow> number_le c c' \<Longrightarrow> ends_by c' xs"
  by (auto simp: ends_by_def intro: number_le_trans)

lemma onmessage_no_overlap:
  assumes "no_overlap_double (started s)" "ends_by (nextStartTime s) (started s)"
    and "nextStartTime s \<noteq> NaN"
  shows "no_overlap_double (started (snd (onmessage msg ctxRef s))) \<and>
         ends_by (nextStartTime (snd (onmessage msg ctxRef s)))
           (started (snd (onmessage msg ctxRef s))) \<and>
         nextStartTime (snd (onmessage msg ctxRef s)) \<noteq> NaN"
proof (cases rule: onmessage_cases [of msg ctxRef s])
  case ignored
  with assms show ?thesis by simp
next
  case (failed e ctx)
  have "number_le (nextStartTime s) (Math_max (nextStartTime s) (Finite (currentTime ctx)))"
    using assms(3) by (rule Math_max_ge)
  from ends_by_mono [OF assms(2) this] failed assms(1,3) show ?thesis
    by (simp add: Math_max_not_NaN)
next
  case (started ctx base64 buffer w)
  have "number_le (nextStartTime s) (Finite w)"
    using Math_max_ge [OF assms(3), of "currentTime ctx"] started(3) by simp
  from ends_by_mono [OF assms(2) this] have before: "ends_by (Finite w) (started s)" .
  have ok: "js_add (Finite w) (duration buffer) \<noteq> NaN"
    using started(2) by (rule cursor_step_not_NaN)
  with started(5) assms(1) before show ?thesis
    by (simp add: no_overlap_double_snoc) (simp add: ends_by_def number_le_refl)
qed

lemma deliver_no_overlap:
  assumes "no_overlap_double (started s)" "ends_by (nextStartTime s) (started s)"
    and "nextStartTime s \<noteq> NaN"
  shows "no_overlap_double (started (deliver ms s))"
  using assms
proof (induction ms arbitrary: s)
  case Nil
  then show ?case by simp
next
  case (Cons m ms)
  obtain msg t where m: "m = (msg, t)" by (cases m)
  from onmessage_no_overlap [OF Cons.prems, of msg "Some \<lparr>currentTime = t\<rparr>"]
  show ?case by (simp add: m Cons.IH)
qed

lemma onmessage_gapless:
  assumes "gapless_double (started s)" "ends_at (nextStartTime s) (started s)"
    and "number_le (Finite (currentTime ctx)) (nextStartTime s)"
  shows "gapless_double (started (snd (onmessage msg (Some ctx) s))) \<and>
         ends_at (nextStartTime (snd (onmessage msg (Some ctx) s)))
           (started (snd (onmessage msg (Some ctx) s)))"
proof (cases rule: onmessage_cases [of msg "Some ctx" s])
  case ignored
  with assms show ?thesis by simp
next
  case (failed e ctx')
  with assms show ?thesis by (simp add: Math_max_absorb)
next
  case (started ctx' base64 buffer w)
  then have "nextStartTime s = Finite w" using assms(3) by (simp add: Math_max_absorb)
  with started(5) assms(1,2) show ?thesis
    by (simp add: gapless_double_snoc) (simp add: ends_at_def)
qed

lemma onmessage_first_gapless:
  assumes "started s = []"
  shows "gapless_double (started (snd (onmessage msg ctxRef s))) \<and>
         ends_at (nextStartTime (snd (onmessage msg ctxRef s)))
           (started (snd (onmessage msg ctxRef s)))"
proof (cases rule: onmessage_cases [of msg ctxRef s])
  case ignored
  with assms show ?thesis by (simp add: ends_at_def)
next
  case (failed e ctx)
  with assms show ?thesis by (simp add: ends_at_def)
next
  case (started ctx base64 buffer w)
  with assms show ?thesis by (simp add: ends_at_def)
qed

lemma deliver_gapless:
  assumes "gapless_double (started s)" "ends_at (nextStartTime s) (started s)" "burst ms s"
  shows "gapless_double (started (deliver ms s))"
  using assms
proof (induction ms arbitrary: s)
  case Nil
  then show ?case by simp
next
  case (Cons m ms)
  obtain msg t where m: "m = (msg, t)" by (cases m)
  from Cons.prems(3) have t: "number_le (Finite t) (nextStartTime s)"
    and rest: "burst ms (snd (onmessage msg (Some \<lparr>currentTime = t\<rparr>) s))"
    by (simp_all add: m)
  from onmessage_gapless [OF Cons.prems(1,2), of "\<lparr>currentTime = t\<rparr>" msg] t
  have "gapless_double (started (snd (onmessage msg (Some \<lparr>currentTime = t\<rparr>) s)))"
    "ends_at (nextStartTime (snd (onmessage msg (Some \<lparr>currentTime = t\<rparr>) s)))
       (started (snd (onmessage msg (Some \<lparr>currentTime = t\<rparr>) s)))"
    by simp_all
  from Cons.IH [OF this rest] show ?case by (simp add: m)
qed

lemma encode_nonempty: "bytes \<noteq> [] \<Longrightarrow> encode bytes \<noteq> []"
proof
  assume "bytes \<noteq> []" "encode bytes = []"
  then have "decode (encode bytes) = Inr []" by (simp add: decode_empty)
  with \<open>bytes \<noteq> []\<close> show False by (simp add: decode_encode)
qed

lemma decode_payload_encoded:
  assumes "bytes \<noteq> []" "even (length bytes)"
  shows "decode_payload (encode bytes) =
         Inr \<lparr>numberOfChannels = 1, sampleRate = 24000,
              channelData =
                map (\<lambda>v. Finite (real_of_int (sint v) / 32768)) (int16_view bytes)\<rparr>"
  by (simp add: decode_payload_def decode_encode decodeAudioData_even [OF assms])

lemma onmessage_encoded:
  assumes "bytes \<noteq> []" "even (length bytes)"
    and "Math_max (nextStartTime s) (Finite t) = Finite w" "0 \<le> w"
  shows "onmessage (audio_message (encode bytes)) (Some \<lparr>currentTime = t\<rparr>) s =
         (None,
          s\<lparr>nextStartTime := js_add (Finite w) (round_double (real (length bytes div 2) / 24000)),
            started := started s @
              [(w,
                \<lparr>numberOfChannels = 1, sampleRate = 24000,
                 channelData =
                   map (\<lambda>v. Finite (real_of_int (sint v) / 32768)) (int16_view bytes)\<rparr>)]\<rparr>)"
proof -
  let ?buffer = "\<lparr>numberOfChannels = 1, sampleRate = 24000,
     channelData = map (\<lambda>v. Finite (real_of_int (sint v) / 32768)) (int16_view bytes)\<rparr>"
  have p: "decode_payload (encode bytes) = Inr ?buffer"
    using assms(1,2) by (rule decode_payload_encoded)
  have d: "duration ?buffer = round_double (real (length bytes div 2) / 24000)"
    by (simp add: duration_def length_int16_view)
  have m: "Math_max (nextStartTime s) (Finite (currentTime \<lparr>currentTime = t\<rparr>)) = Finite w"
    using assms(3) by simp
  from onmessage_started [OF base64Audio_audio_message encode_nonempty [OF assms(1)] p m assms(4)]
  show ?thesis by (simp only: d)
qed

section \<open>Some sums of doubles\<close>

text \<open>
  The doubles nearest to \<open>1/24000\<close> (one sample), to \<open>1/10\<close> (2400 samples) and to
  \<open>0.32\<close>, and the sums the handler forms with them.
\<close>

lemma round_double_sample: "round_double (1 / 24000) = Finite (6148914691236517 / 147573952589676412928)"
proof -
  have "round_pos (1 / 24000) = Finite (6148914691236517 / 147573952589676412928)"
    by (rule round_pos_eval [of "- 15"]) (simp_all add: round_half_even_def)
  then show ?thesis by (simp add: round_double_def)
qed

lemma round_double_tenth: "round_double (1 / 10) = Finite (3602879701896397 / 36028797018963968)"
proof -
  have "round_pos (1 / 10) = Finite (3602879701896397 / 36028797018963968)"
    by (rule round_pos_eval [of "- 4"]) (simp_all add: round_half_even_def)
  then show ?thesis by (simp add: round_double_def)
qed

lemma is_double_tenth: "is_double (3602879701896397 / 36028797018963968)"
proof -
  have "round_pos (3602879701896397 / 36028797018963968) =
        Finite (3602879701896397 / 36028797018963968)"
    by (rule round_pos_eval [of "- 4"]) (simp_all add: round_half_even_def)
  then show ?thesis by (simp add: is_double_def round_double_def)
qed

lemma is_double_032: "is_double (5764607523034235 / 18014398509481984)"
proof -
  have "round_pos (5764607523034235 / 18014398509481984) =
        Finite (5764607523034235 / 18014398509481984)"
    by (rule round_pos_eval [of "- 2"]) (simp_all add: round_half_even_def)
  then show ?thesis by (simp add: is_double_def round_double_def)
qed

lemma sum_1_sample:
  "js_add (Finite 1) (round_double (1 / 24000)) =
   Finite (2251893638677485 / 2251799813685248)"
proof -
  have "round_pos (1 + 6148914691236517 / 147573952589676412928) =
        Finite (2251893638677485 / 2251799813685248)"
    by (rule round_pos_eval [of 0]) (simp_all add: round_half_even_def)
  then have "round_double (1 + 6148914691236517 / 147573952589676412928) =
        Finite (2251893638677485 / 2251799813685248)"
    by (simp add: round_double_def)
  then show ?thesis by (simp only: round_double_sample js_add.simps)
qed

lemma sum_032_tenth:
  "js_add (Finite (5764607523034235 / 18014398509481984)) (round_double (1 / 10)) =
   Finite (3783023686991217 / 9007199254740992)"
proof -
  have "round_pos (5764607523034235 / 18014398509481984 + 3602879701896397 / 36028797018963968) =
        Finite (3783023686991217 / 9007199254740992)"
    by (rule round_pos_eval [of "- 2"]) (simp_all add: round_half_even_def)
  then have "round_double
          (5764607523034235 / 18014398509481984 + 3602879701896397 / 36028797018963968) =
        Finite (3783023686991217 / 9007199254740992)"
    by (simp add: round_double_def)
  then show ?thesis by (simp only: round_double_tenth js_add.simps)
qed

lemma sum_032_sample:
  "js_add (Finite (5764607523034235 / 18014398509481984)) (round_double (1 / 24000)) =
   Finite (2882679061486065 / 9007199254740992)"
proof -
  have "round_pos
          (5764607523034235 / 18014398509481984 + 6148914691236517 / 147573952589676412928) =
        Finite (2882679061486065 / 9007199254740992)"
    by (rule round_pos_eval [of "- 2"]) (simp_all add: round_half_even_def)
  then have "round_double
          (5764607523034235 / 18014398509481984 + 6148914691236517 / 147573952589676412928) =
        Finite (2882679061486065 / 9007199254740992)"
    by (simp add: round_double_def)
  then show ?thesis by (simp only: round_double_sample js_add.simps)
qed

section \<open>Encoding and decoding audio\<close>

text \<open>
  C3, as the code has it. \<open>createBlob\<close> followed by the downlink's
  \<open>decodeAudioData (decode ...)\<close> gives back a buffer of as many samples as the block,
  each less than \<open>1/32768\<close> away from the original, for every block that is not empty
  and whose samples are finite with \<open>-1 \<le> s < 1\<close>; a block of 4096 zeros comes back as
  4096 zeros. (The sample \<open>1\<close> is outside: see the counterexample. An empty block gives
  an empty payload, for which \<open>createBuffer\<close> throws.)
\<close>

theorem C3_roundtrip_within_one_step:
  assumes "block \<noteq> []"
    and "\<forall>x \<in> set block. \<exists>r. x = Finite r \<and> - 1 \<le> r \<and> r < 1"
  shows "(\<exists>base64 buffer.
            data (createBlob block) = Some base64 \<and> decode_payload base64 = Inr buffer \<and>
            length (channelData buffer) = length block \<and>
            (\<forall>i < length block. \<exists>r q. block ! i = Finite r \<and>
               channelData buffer ! i = Finite q \<and> \<bar>q - r\<bar> < 1 / 32768)) \<and>
         (\<exists>base64.
            data (createBlob (replicate 4096 (Finite 0))) = Some base64 \<and>
            decode_payload base64 =
              Inr \<lparr>numberOfChannels = 1, sampleRate = 24000,
                   channelData = replicate 4096 (Finite 0)\<rparr>)"
proof
  let ?q = "\<lambda>x. Finite (real_of_int (sint (ToInt16 (times_32768 x))) / 32768)"
  let ?buffer = "\<lparr>numberOfChannels = 1, sampleRate = 24000, channelData = map ?q block\<rparr>"
  note rt = decode_payload_createBlob [OF assms(1)]
  have close: "\<exists>r q. block ! i = Finite r \<and> channelData ?buffer ! i = Finite q \<and>
                 \<bar>q - r\<bar> < 1 / 32768" if "i < length block" for i
  proof -
    from that assms(2) obtain r where r: "block ! i = Finite r" "- 1 \<le> r" "r < 1"
      using nth_mem by blast
    have "channelData ?buffer ! i = ?q (Finite r)" using that r(1) by simp
    moreover have "\<bar>real_of_int (sint (ToInt16 (times_32768 (Finite r)))) / 32768 - r\<bar> < 1 / 32768"
      using r(2,3) by (rule quantize_in_range)
    ultimately show ?thesis using r(1) by blast
  qed
  have "length (channelData ?buffer) = length block" by simp
  with rt close
  show "\<exists>base64 buffer.
            data (createBlob block) = Some base64 \<and> decode_payload base64 = Inr buffer \<and>
            length (channelData buffer) = length block \<and>
            (\<forall>i < length block. \<exists>r q. block ! i = Finite r \<and>
               channelData buffer ! i = Finite q \<and> \<bar>q - r\<bar> < 1 / 32768)"
    by blast
next
  have ne: "replicate 4096 (Finite 0) \<noteq> []" by simp
  have "map (\<lambda>x. Finite (real_of_int (sint (ToInt16 (times_32768 x))) / 32768))
          (replicate 4096 (Finite 0)) = replicate 4096 (Finite 0)"
    by (simp add: ToInt16_def times_32768_def js_truncate_def)
  with decode_payload_createBlob [OF ne]
  show "\<exists>base64.
            data (createBlob (replicate 4096 (Finite 0))) = Some base64 \<and>
            decode_payload base64 =
              Inr \<lparr>numberOfChannels = 1, sampleRate = 24000,
                   channelData = replicate 4096 (Finite 0)\<rparr>"
    by (simp only:) blast
qed

theorem C3_roundtrip_within_one_step_witness:
  "[Finite (1 / 2), Finite (- 1)] \<noteq> [] \<and>
   (\<exists>r. Finite (1 / 2) = Finite r \<and> - 1 \<le> r \<and> r < 1) \<and>
   (\<exists>r. Finite (- 1) = Finite r \<and> - 1 \<le> r \<and> r < 1) \<and>
   (\<exists>base64 buffer.
      data (createBlob [Finite (1 / 2), Finite (- 1)]) = Some base64 \<and>
      decode_payload base64 = Inr buffer \<and>
      length (channelData buffer) = length [Finite (1 / 2), Finite (- 1)] \<and>
      (\<forall>i < length [Finite (1 / 2), Finite (- 1)]. \<exists>r q.
         [Finite (1 / 2), Finite (- 1)] ! i = Finite r \<and>
         channelData buffer ! i = Finite q \<and> \<bar>q - r\<bar> < 1 / 32768))"
proof -
  have h1: "[Finite (1 / 2), Finite (- 1)] \<noteq> []" by simp
  have a: "\<exists>r. Finite (1 / 2) = Finite r \<and> - 1 \<le> r \<and> r < 1"
    by (rule exI [of _ "1 / 2"]) simp
  have b: "\<exists>r. Finite (- 1) = Finite r \<and> - 1 \<le> r \<and> r < 1"
    by (rule exI [of _ "- 1"]) simp
  have h2: "\<forall>x \<in> set [Finite (1 / 2), Finite (- 1)]. \<exists>r. x = Finite r \<and> - 1 \<le> r \<and> r < 1"
    using a b by simp
  from C3_roundtrip_within_one_step [OF h1 h2] h1 a b show ?thesis by blast
qed

text \<open>
  The claim as stated fails at the normalized sample \<open>1\<close>: \<open>1 * 32768\<close> does not fit 16
  bits, is stored as \<open>-32768\<close> and comes back as \<open>-1\<close>.
\<close>

theorem C3_counterexample:
  "data (createBlob [Finite 1]) = Some ''AIA='' \<and>
   decode_payload ''AIA='' =
     Inr \<lparr>numberOfChannels = 1, sampleRate = 24000, channelData = [Finite (- 1)]\<rparr> \<and>
   \<not> \<bar>(- 1 :: real) - 1\<bar> \<le> 1 / 32768"
proof -
  have enc: "Uint8Array_of_buffer [ToInt16 (times_32768 (Finite 1))] = [0, 128]"
    by (simp add: Uint8Array_of_buffer_def int16_bytes_def ToInt16_def times_32768_def
        js_truncate_def)
  have str: "encode [0, 128] = ''AIA=''"
    by (simp add: encode_def base64_char_def base64_alphabet_def)
  have 1: "data (createBlob [Finite 1]) = Some ''AIA=''"
    using enc str by (simp add: createBlob_def)
  have "decode_payload (encode [0, 128]) = decodeAudioData [0, 128]"
    by (simp add: decode_payload_def decode_encode)
  also have "\<dots> = Inr \<lparr>numberOfChannels = 1, sampleRate = 24000, channelData = [Finite (- 1)]\<rparr>"
    by (simp add: decodeAudioData_def Int16Array_of_buffer_def createBuffer_def
        SAMPLE_RATE_OUT_def)
  finally have 2: "decode_payload ''AIA='' =
     Inr \<lparr>numberOfChannels = 1, sampleRate = 24000, channelData = [Finite (- 1)]\<rparr>"
    by (simp only: str)
  from 1 2 show ?thesis by simp
qed

text \<open>
  C4, as the code has it. A finite sample \<open>s\<close> is stored as \<open>s * 32768\<close> truncated
  towards zero (not rounded to the nearest integer), taken modulo \<open>2\<^sup>1\<^sup>6\<close> into
  \<open>[-32768, 32767]\<close>; where \<open>-32769 < s * 32768 < 32768\<close> this is the truncated value
  itself. Nothing is clamped: \<open>1\<close> is stored as \<open>-32768\<close> and \<open>-2\<close> as \<open>0\<close>. A sample that
  is not finite is stored as \<open>0\<close>. The bytes of these integers are what \<open>createBlob\<close>
  encodes.
\<close>

theorem C4_truncates_and_wraps:
  "sint (ToInt16 (times_32768 (Finite s))) =
     ((if s * 32768 < 0 then \<lceil>s * 32768\<rceil> else \<lfloor>s * 32768\<rfloor>) + 32768) mod 65536 - 32768 \<and>
   (- 32769 < s * 32768 \<and> s * 32768 < 32768 \<longrightarrow>
      sint (ToInt16 (times_32768 (Finite s))) =
        (if s * 32768 < 0 then \<lceil>s * 32768\<rceil> else \<lfloor>s * 32768\<rfloor>)) \<and>
   sint (ToInt16 (times_32768 (Finite 1))) = - 32768 \<and>
   sint (ToInt16 (times_32768 (Finite (- 2)))) = 0 \<and>
   ToInt16 (times_32768 NaN) = 0 \<and> ToInt16 (times_32768 PosInf) = 0 \<and>
   ToInt16 (times_32768 NegInf) = 0 \<and>
   data (createBlob samples) =
     Some (encode (Uint8Array_of_buffer (map (\<lambda>x. ToInt16 (times_32768 x)) samples)))"
proof -
  have wrap: "sint (ToInt16 (times_32768 (Finite s))) =
     ((if s * 32768 < 0 then \<lceil>s * 32768\<rceil> else \<lfloor>s * 32768\<rfloor>) + 32768) mod 65536 - 32768"
    using ToInt16_times_finite [of s] by (simp only: js_truncate_def)
  have in_range: "sint (ToInt16 (times_32768 (Finite s))) =
        (if s * 32768 < 0 then \<lceil>s * 32768\<rceil> else \<lfloor>s * 32768\<rfloor>)"
    if "- 32769 < s * 32768 \<and> s * 32768 < 32768"
  proof -
    from that have "- 32768 \<le> js_truncate (s * 32768)" "js_truncate (s * 32768) < 32768"
      by (simp_all add: js_truncate_range)
    then have "sint (word_of_int (js_truncate (s * 32768)) :: int16) = js_truncate (s * 32768)"
      by (rule sint_word_of_int_16_in_range)
    then show ?thesis by (simp add: ToInt16_def times_32768_def js_truncate_def)
  qed
  have one: "sint (ToInt16 (times_32768 (Finite 1))) = - 32768"
    by (simp add: ToInt16_def times_32768_def js_truncate_def)
  have two: "sint (ToInt16 (times_32768 (Finite (- 2)))) = 0"
    by (simp add: ToInt16_def times_32768_def js_truncate_def)
  have others: "ToInt16 (times_32768 NaN) = 0" "ToInt16 (times_32768 PosInf) = 0"
    "ToInt16 (times_32768 NegInf) = 0"
    by (simp_all add: ToInt16_def times_32768_def)
  have blob: "data (createBlob samples) =
     Some (encode (Uint8Array_of_buffer (map (\<lambda>x. ToInt16 (times_32768 x)) samples)))"
    by (simp add: createBlob_def)
  from wrap in_range one two others blob show ?thesis by blast
qed

theorem C4_truncates_and_wraps_witness:
  "- 32769 < (1 / 2 :: real) * 32768 \<and> (1 / 2 :: real) * 32768 < 32768 \<and>
   sint (ToInt16 (times_32768 (Finite (1 / 2)))) = 16384"
  using C4_truncates_and_wraps [of "1 / 2" "[]"] by simp

text \<open>
  The claim as stated fails at \<open>s = 3/131072\<close>: \<open>s * 32768 = 3/4\<close> is stored as \<open>0\<close>,
  and rounds to \<open>1\<close>.
\<close>

theorem C4_counterexample:
  "sint (ToInt16 (times_32768 (Finite (3 / 131072)))) = 0 \<and>
   round ((3 / 131072 :: real) * 32768) = 1"
  by (simp add: ToInt16_def times_32768_def js_truncate_def round_def)

text \<open>
  C8. For every byte array \<open>b\<close>, \<open>decode (encode b)\<close> returns \<open>b\<close>: the base64 text that
  the uplink's \<open>encode\<close> produces is read back by the downlink's \<open>decode\<close> as the same
  bytes, without an exception.
\<close>

theorem C8_decode_inverts_encode: "decode (encode b) = Inr b"
  by (rule decode_encode)

theorem C8_decode_inverts_encode_witness:
  "decode (encode [72, 105, 33, 0, 255]) = Inr [72, 105, 33, 0, 255]"
  using C8_decode_inverts_encode [of "[72, 105, 33, 0, 255]"] .

text \<open>
  C9, as the code has it. For every payload of even length that is not empty,
  \<open>decodeAudioData\<close> returns a buffer of one channel at 24000 Hz with half as many
  samples as the payload has bytes, each sample finite and in \<open>[-1, 1)\<close>.
\<close>

theorem C9_decodeAudioData_buffer:
  assumes "bytes \<noteq> []" and "even (length bytes)"
  shows "\<exists>buffer. decodeAudioData bytes = Inr buffer \<and>
           numberOfChannels buffer = 1 \<and> sampleRate buffer = SAMPLE_RATE_OUT \<and>
           SAMPLE_RATE_OUT = 24000 \<and>
           length (channelData buffer) = length bytes div 2 \<and>
           (\<forall>x \<in> set (channelData buffer). \<exists>r. x = Finite r \<and> - 1 \<le> r \<and> r < 1)"
proof -
  let ?f = "\<lambda>v :: int16. Finite (real_of_int (sint v) / 32768)"
  let ?buffer = "\<lparr>numberOfChannels = 1, sampleRate = 24000,
                  channelData = map ?f (int16_view bytes)\<rparr>"
  have dec: "decodeAudioData bytes = Inr ?buffer"
    by (rule decodeAudioData_even [OF assms])
  have bound: "\<exists>r. ?f v = Finite r \<and> - 1 \<le> r \<and> r < 1" for v
  proof (intro exI conjI)
    show "?f v = Finite (real_of_int (sint v) / 32768)" by (rule refl)
    show "- 1 \<le> real_of_int (sint v) / 32768"
      using sint_int16_range [of v] by (simp del: of_int_sint)
    show "real_of_int (sint v) / 32768 < 1"
      using sint_int16_range [of v] by (simp del: of_int_sint)
  qed
  have samples: "\<forall>x \<in> set (channelData ?buffer). \<exists>r. x = Finite r \<and> - 1 \<le> r \<and> r < 1"
  proof
    fix x assume "x \<in> set (channelData ?buffer)"
    then obtain v where "x = ?f v" by auto
    with bound [of v] show "\<exists>r. x = Finite r \<and> - 1 \<le> r \<and> r < 1" by (simp only:)
  qed
  have "numberOfChannels ?buffer = 1" "sampleRate ?buffer = SAMPLE_RATE_OUT"
    "SAMPLE_RATE_OUT = 24000" "length (channelData ?buffer) = length bytes div 2"
    by (simp_all add: SAMPLE_RATE_OUT_def length_int16_view)
  with dec samples show ?thesis by blast
qed

theorem C9_decodeAudioData_buffer_witness:
  "[0, 128 :: byte] \<noteq> [] \<and> even (length [0, 128 :: byte]) \<and>
   decodeAudioData [0, 128] =
     Inr \<lparr>numberOfChannels = 1, sampleRate = 24000, channelData = [Finite (- 1)]\<rparr>"
proof -
  have "decodeAudioData [0, 128] =
     Inr \<lparr>numberOfChannels = 1, sampleRate = 24000, channelData = [Finite (- 1)]\<rparr>"
    by (simp add: decodeAudioData_def Int16Array_of_buffer_def createBuffer_def
        SAMPLE_RATE_OUT_def)
  with C9_decodeAudioData_buffer [of "[0, 128]"] show ?thesis by simp
qed

text \<open>
  The claim as stated fails at the empty payload, whose length is even: the
  \<open>Int16Array\<close> has no elements and \<open>createBuffer(1, 0, 24000)\<close> throws.
\<close>

theorem C9_counterexample:
  "even (length ([] :: byte list)) \<and> decodeAudioData [] = Inl NotSupportedError"
  by (simp add: decodeAudioData_def Int16Array_of_buffer_def createBuffer_def)

text \<open>
  C10. When the payload of a message decodes to an odd number of bytes, the
  \<open>Int16Array\<close> constructor in \<open>decodeAudioData\<close> throws a \<open>RangeError\<close>: the handler's
  promise is rejected with it, the cursor has only been raised to the clock and no
  buffer is started. The chunk is not skipped silently. Such payloads exist: \<open>AA==\<close>
  is one byte.
\<close>

theorem C10_odd_payload_rejected:
  assumes "base64Audio msg = Some base64" and "decode base64 = Inr bytes"
    and "odd (length bytes)"
  shows "decodeAudioData bytes = Inl RangeError \<and>
         onmessage msg (Some ctx) s =
           (Some RangeError,
            s\<lparr>nextStartTime := Math_max (nextStartTime s) (Finite (currentTime ctx))\<rparr>)"
proof -
  have 1: "decodeAudioData bytes = Inl RangeError"
    using assms(3) by (rule decodeAudioData_odd)
  from assms(2,3) have "base64 \<noteq> []" by (auto simp: decode_empty)
  with assms(1,2) 1 show ?thesis
    by (simp add: onmessage_def decode_payload_def Let_def)
qed

theorem C10_odd_payload_rejected_witness:
  "base64Audio (audio_message ''AA=='') = Some ''AA=='' \<and> decode ''AA=='' = Inr [0] \<and>
   odd (length [0 :: byte]) \<and>
   decodeAudioData [0] = Inl RangeError \<and>
   onmessage (audio_message ''AA=='') (Some \<lparr>currentTime = 1\<rparr>) initial_session =
     (Some RangeError, initial_session\<lparr>nextStartTime := Finite 1\<rparr>)"
  using C10_odd_payload_rejected [of "audio_message ''AA==''" "''AA==''" "[0]"
      "\<lparr>currentTime = 1\<rparr>" initial_session]
  by (simp add: base64Audio_audio_message decode_AA initial_session_def)

section \<open>The playback schedule\<close>

text \<open>
  C1, as the code has it. Whatever messages are delivered in order to the handler of a
  fresh session: no source is started before the end of the source before it, the end
  being the double \<open>start + duration\<close> that the handler computes; when the clock readings
  are doubles, the start times are non-decreasing; when from the second message on every
  clock reading is at most the cursor (a burst), each source starts exactly at that
  double. Two chunks of 4800 and 2400 bytes (2400 and 1200 samples at 24 kHz, the first
  of duration the double nearest to \<open>1/10\<close>), the second arriving no later than the first
  one ends, are started at \<open>w\<close> and at the double nearest to \<open>w\<close> plus that duration.
\<close>

theorem C1_sequential_playback:
  "no_overlap_double (started (deliver ms initial_session)) \<and>
   (double_clock ms \<longrightarrow> sorted (map fst (started (deliver ms initial_session)))) \<and>
   (burst rest (snd (onmessage msg (Some \<lparr>currentTime = t\<rparr>) initial_session)) \<longrightarrow>
      gapless_double (started (deliver ((msg, t) # rest) initial_session))) \<and>
   round_double (1 / 10) = Finite (3602879701896397 / 36028797018963968) \<and>
   (length b1 = 4800 \<and> length b2 = 2400 \<and>
    round_double (max 0 t1 + 3602879701896397 / 36028797018963968) = Finite c \<and> t2 \<le> c \<longrightarrow>
      (\<exists>buffer1 buffer2.
         started (deliver [(audio_message (encode b1), t1), (audio_message (encode b2), t2)]
           initial_session) =
           [(max 0 t1, buffer1), (c, buffer2)] \<and>
         duration buffer1 = Finite (3602879701896397 / 36028797018963968) \<and>
         length (channelData buffer1) = 2400 \<and> length (channelData buffer2) = 1200))"
proof (intro conjI impI)
  have init: "no_overlap_double (started initial_session)"
    "ends_by (nextStartTime initial_session) (started initial_session)"
    "nextStartTime initial_session \<noteq> NaN"
    by (simp_all add: initial_session_def ends_by_def)
  then show "no_overlap_double (started (deliver ms initial_session))"
    by (rule deliver_no_overlap)
next
  assume clock: "double_clock ms"
  have "sorted (map fst (started initial_session))"
    "starts_by (nextStartTime initial_session) (started initial_session)"
    "valid_cursor (nextStartTime initial_session)"
    by (simp_all add: initial_session_def starts_by_def is_double_0)
  then show "sorted (map fst (started (deliver ms initial_session)))"
    using clock by (rule deliver_sorted)
next
  assume b: "burst rest (snd (onmessage msg (Some \<lparr>currentTime = t\<rparr>) initial_session))"
  have "started initial_session = []" by (simp add: initial_session_def)
  from onmessage_first_gapless [OF this, of msg "Some \<lparr>currentTime = t\<rparr>"]
  have "gapless_double (started (snd (onmessage msg (Some \<lparr>currentTime = t\<rparr>) initial_session)))"
    "ends_at (nextStartTime (snd (onmessage msg (Some \<lparr>currentTime = t\<rparr>) initial_session)))
       (started (snd (onmessage msg (Some \<lparr>currentTime = t\<rparr>) initial_session)))"
    by simp_all
  from deliver_gapless [OF this b]
  show "gapless_double (started (deliver ((msg, t) # rest) initial_session))" by simp
next
  show "round_double (1 / 10) = Finite (3602879701896397 / 36028797018963968)"
    by (rule round_double_tenth)
next
  let ?D = "3602879701896397 / 36028797018963968 :: real"
  let ?w = "max 0 t1"
  let ?buffer = "\<lambda>bytes. \<lparr>numberOfChannels = 1, sampleRate = 24000,
     channelData = map (\<lambda>v. Finite (real_of_int (sint v) / 32768)) (int16_view bytes)\<rparr>"
  assume a: "length b1 = 4800 \<and> length b2 = 2400 \<and>
    round_double (max 0 t1 + 3602879701896397 / 36028797018963968) = Finite c \<and> t2 \<le> c"
  then have ne: "b1 \<noteq> []" "b2 \<noteq> []" and ev: "even (length b1)" "even (length b2)"
    by auto
  from a have len: "real (length b1 div 2) / 24000 = 1 / 10" by simp
  have first: "onmessage (audio_message (encode b1)) (Some \<lparr>currentTime = t1\<rparr>) initial_session =
     (None, initial_session\<lparr>nextStartTime := Finite c, started := [(?w, ?buffer b1)]\<rparr>)"
  proof -
    have m: "Math_max (nextStartTime initial_session) (Finite t1) = Finite ?w"
      by (simp add: initial_session_def)
    have w: "0 \<le> ?w" by simp
    have "js_add (Finite ?w) (round_double (real (length b1 div 2) / 24000)) = Finite c"
      unfolding len round_double_tenth js_add.simps using a by blast
    with onmessage_encoded [OF ne(1) ev(1) m w] show ?thesis
      by (simp add: initial_session_def)
  qed
  have c_nonneg: "0 \<le> c"
  proof -
    have "0 \<le> ?w + ?D" by simp
    then show ?thesis
    proof (cases rule: round_double_nonneg_cases)
      case overflow
      with a show ?thesis by simp
    next
      case (finite r)
      with a show ?thesis by simp
    qed
  qed
  have second: "started (snd (onmessage (audio_message (encode b2)) (Some \<lparr>currentTime = t2\<rparr>)
       (initial_session\<lparr>nextStartTime := Finite c, started := [(?w, ?buffer b1)]\<rparr>))) =
     [(?w, ?buffer b1), (c, ?buffer b2)]"
  proof -
    from a have m: "Math_max
        (nextStartTime (initial_session\<lparr>nextStartTime := Finite c, started := [(?w, ?buffer b1)]\<rparr>))
        (Finite t2) = Finite c"
      by (simp add: max_absorb1)
    from onmessage_encoded [OF ne(2) ev(2) m c_nonneg] show ?thesis by simp
  qed
  have d: "duration (?buffer b1) = Finite ?D"
    using a by (simp add: duration_def length_int16_view round_double_tenth)
  from a have "length (channelData (?buffer b1)) = 2400" "length (channelData (?buffer b2)) = 1200"
    by (simp_all add: length_int16_view)
  with first second d
  show "\<exists>buffer1 buffer2.
         started (deliver [(audio_message (encode b1), t1), (audio_message (encode b2), t2)]
           initial_session) =
           [(max 0 t1, buffer1), (c, buffer2)] \<and>
         duration buffer1 = Finite (3602879701896397 / 36028797018963968) \<and>
         length (channelData buffer1) = 2400 \<and> length (channelData buffer2) = 1200"
    by (intro exI [of _ "?buffer b1"] exI [of _ "?buffer b2"]) simp
qed

lemma onmessage_one_sample:
  assumes "is_double t" "0 \<le> t"
  shows "onmessage (audio_message (encode [0, 0])) (Some \<lparr>currentTime = t\<rparr>) initial_session =
         (None,
          initial_session\<lparr>nextStartTime := js_add (Finite t) (round_double (1 / 24000)),
            started := [(t, \<lparr>numberOfChannels = 1, sampleRate = 24000,
                             channelData = [Finite 0]\<rparr>)]\<rparr>)"
proof -
  have e: "[0, 0 :: byte] \<noteq> []" "even (length [0, 0 :: byte])" by simp_all
  have m: "Math_max (nextStartTime initial_session) (Finite t) = Finite t"
    using assms(2) by (simp add: initial_session_def max_absorb2)
  from onmessage_encoded [OF e m assms(2)] show ?thesis
    by (simp add: initial_session_def)
qed

theorem C1_sequential_playback_witness:
  "double_clock [(audio_message (encode [0, 0]), 1), (audio_message (encode [0, 0]), 1)] \<and>
   sorted (map fst (started (deliver
     [(audio_message (encode [0, 0]), 1), (audio_message (encode [0, 0]), 1)] initial_session))) \<and>
   burst [(audio_message (encode [0, 0]), 1)]
     (snd (onmessage (audio_message (encode [0, 0])) (Some \<lparr>currentTime = 1\<rparr>) initial_session)) \<and>
   gapless_double (started (deliver
     [(audio_message (encode [0, 0]), 1), (audio_message (encode [0, 0]), 1)] initial_session)) \<and>
   length (replicate 4800 (0 :: byte)) = 4800 \<and> length (replicate 2400 (0 :: byte)) = 2400 \<and>
   round_double (max 0 0 + 3602879701896397 / 36028797018963968) =
     Finite (3602879701896397 / 36028797018963968) \<and>
   (0 :: real) \<le> 3602879701896397 / 36028797018963968 \<and>
   map fst (started (deliver
     [(audio_message (encode (replicate 4800 0)), 0),
      (audio_message (encode (replicate 2400 0)), 0)] initial_session)) =
     [0, 3602879701896397 / 36028797018963968]"
proof -
  let ?m = "audio_message (encode [0, 0])"
  let ?D = "3602879701896397 / 36028797018963968 :: real"
  have h1: "double_clock [(?m, 1), (?m, 1)]" by (simp add: is_double_1)
  have "nextStartTime (snd (onmessage ?m (Some \<lparr>currentTime = 1\<rparr>) initial_session)) =
        Finite (2251893638677485 / 2251799813685248)"
    by (simp add: onmessage_one_sample [OF is_double_1] sum_1_sample)
  then have h2: "burst [(?m, 1)] (snd (onmessage ?m (Some \<lparr>currentTime = 1\<rparr>) initial_session))"
    by simp
  have h3: "length (replicate 4800 (0 :: byte)) = 4800 \<and> length (replicate 2400 (0 :: byte)) = 2400 \<and>
    round_double (max 0 0 + ?D) = Finite ?D \<and> (0 :: real) \<le> ?D"
    using is_double_tenth by (simp add: is_double_def)
  from C1_sequential_playback [of "[(?m, 1), (?m, 1)]" "[(?m, 1)]" ?m 1
      "replicate 4800 0" "replicate 2400 0" 0 ?D 0] h1 h2 h3
  show ?thesis by auto
qed

text \<open>
  The claim as stated, with the exact sum for the end of a source, fails. At the clock
  reading \<open>0.32\<close> (the double nearest to it) the chunks of 2400 and 1200 samples are
  started \<open>1801439850948199 / 18014398509481984\<close> apart, which is neither \<open>1/10\<close> nor
  the double nearest to it; and of two chunks of one sample the second is started
  before the first one's start time plus its duration.
\<close>

theorem C1_counterexample:
  "is_double (5764607523034235 / 18014398509481984) \<and>
   map fst (started (deliver
     [(audio_message (encode (replicate 4800 0)), 5764607523034235 / 18014398509481984),
      (audio_message (encode (replicate 2400 0)), 5764607523034235 / 18014398509481984)]
     initial_session)) =
     [5764607523034235 / 18014398509481984, 3783023686991217 / 9007199254740992] \<and>
   (3783023686991217 / 9007199254740992 - 5764607523034235 / 18014398509481984 :: real) \<noteq> 1 / 10 \<and>
   (3783023686991217 / 9007199254740992 - 5764607523034235 / 18014398509481984 :: real) \<noteq>
     3602879701896397 / 36028797018963968 \<and>
   started (deliver
     [(audio_message (encode [0, 0]), 5764607523034235 / 18014398509481984),
      (audio_message (encode [0, 0]), 5764607523034235 / 18014398509481984)]
     initial_session) =
     [(5764607523034235 / 18014398509481984,
       \<lparr>numberOfChannels = 1, sampleRate = 24000, channelData = [Finite 0]\<rparr>),
      (2882679061486065 / 9007199254740992,
       \<lparr>numberOfChannels = 1, sampleRate = 24000, channelData = [Finite 0]\<rparr>)] \<and>
   duration \<lparr>numberOfChannels = 1, sampleRate = 24000, channelData = [Finite 0]\<rparr> =
     Finite (6148914691236517 / 147573952589676412928) \<and>
   (2882679061486065 / 9007199254740992 :: real) <
     5764607523034235 / 18014398509481984 + 6148914691236517 / 147573952589676412928 \<and>
   (2882679061486065 / 9007199254740992 :: real) <
     5764607523034235 / 18014398509481984 + 1 / 24000"
proof -
  let ?T = "5764607523034235 / 18014398509481984 :: real"
  let ?B = "\<lparr>numberOfChannels = 1, sampleRate = 24000, channelData = [Finite 0]\<rparr>"
  have T: "is_double ?T" "0 \<le> ?T" by (simp_all add: is_double_032)
  have big: "map fst (started (deliver
     [(audio_message (encode (replicate 4800 0)), ?T),
      (audio_message (encode (replicate 2400 0)), ?T)] initial_session)) =
     [?T, 3783023686991217 / 9007199254740992]"
  proof -
    have e1: "replicate 4800 (0 :: byte) \<noteq> []" "even (length (replicate 4800 (0 :: byte)))"
      and e2: "replicate 2400 (0 :: byte) \<noteq> []" "even (length (replicate 2400 (0 :: byte)))"
      by simp_all
    have m1: "Math_max (nextStartTime initial_session) (Finite ?T) = Finite ?T"
      by (simp add: initial_session_def)
    have c: "js_add (Finite ?T) (round_double (real (length (replicate 4800 (0 :: byte)) div 2) / 24000)) =
             Finite (3783023686991217 / 9007199254740992)"
      using sum_032_tenth by simp
    note first = onmessage_encoded [OF e1 m1 T(2), unfolded c]
    let ?s1 = "snd (onmessage (audio_message (encode (replicate 4800 0)))
                 (Some \<lparr>currentTime = ?T\<rparr>) initial_session)"
    have m2: "Math_max (nextStartTime ?s1) (Finite ?T) = Finite (3783023686991217 / 9007199254740992)"
      by (simp add: first)
    have "(0 :: real) \<le> 3783023686991217 / 9007199254740992" by simp
    note second = onmessage_encoded [OF e2 m2 this]
    have s0: "started initial_session = []" by (simp add: initial_session_def)
    show ?thesis by (simp add: second) (simp add: first s0)
  qed
  have small: "started (deliver
     [(audio_message (encode [0, 0]), ?T), (audio_message (encode [0, 0]), ?T)]
     initial_session) = [(?T, ?B), (2882679061486065 / 9007199254740992, ?B)]"
  proof -
    note first = onmessage_one_sample [OF T, unfolded sum_032_sample]
    let ?s1 = "snd (onmessage (audio_message (encode [0, 0])) (Some \<lparr>currentTime = ?T\<rparr>)
                 initial_session)"
    have e: "[0, 0 :: byte] \<noteq> []" "even (length [0, 0 :: byte])" by simp_all
    have m2: "Math_max (nextStartTime ?s1) (Finite ?T) = Finite (2882679061486065 / 9007199254740992)"
      by (simp add: first)
    have "(0 :: real) \<le> 2882679061486065 / 9007199254740992" by simp
    note second = onmessage_encoded [OF e m2 this]
    have s0: "started initial_session = []" by (simp add: initial_session_def)
    show ?thesis by (simp add: second) (simp add: first s0)
  qed
  have d: "duration ?B = Finite (6148914691236517 / 147573952589676412928)"
    by (simp add: duration_def round_double_sample)
  from T(1) big small d show ?thesis by simp
qed

text \<open>
  C2, as the code has it. From a cursor that is a double and not negative (or
  \<open>Infinity\<close>) and a clock reading that is a double: a call of the handler leaves such a
  cursor again and never lowers it, nor does a sequence of calls. When the message carries a payload, the cursor after the call is
  at least the clock reading. When the payload decodes to a buffer and the cursor is
  finite, the buffer is started exactly at the maximum of the cursor and the clock, and
  the cursor becomes the double nearest to that start time plus the duration, the
  duration being the double nearest to the number of samples divided by 24000. With a
  cursor of \<open>Infinity\<close>, \<open>source.start\<close> throws and the state stays as it is.
\<close>

theorem C2_cursor_advances:
  assumes "valid_cursor (nextStartTime s)" and "is_double (currentTime ctx)"
  shows "number_le (nextStartTime s) (nextStartTime (snd (onmessage msg (Some ctx) s))) \<and>
   valid_cursor (nextStartTime (snd (onmessage msg (Some ctx) s))) \<and>
   onmessage msg None s = (None, s) \<and>
   (double_clock ms \<longrightarrow> number_le (nextStartTime s) (nextStartTime (deliver ms s))) \<and>
   (base64Audio msg = Some base64 \<and> base64 \<noteq> [] \<longrightarrow>
      number_le (Finite (currentTime ctx)) (nextStartTime (snd (onmessage msg (Some ctx) s)))) \<and>
   (base64Audio msg = Some base64 \<and> base64 \<noteq> [] \<and> decode_payload base64 = Inr buffer \<and>
    nextStartTime s = Finite c \<longrightarrow>
      started (snd (onmessage msg (Some ctx) s)) =
        started s @ [(max c (currentTime ctx), buffer)] \<and>
      duration buffer = round_double (real (length (channelData buffer)) / 24000) \<and>
      nextStartTime (snd (onmessage msg (Some ctx) s)) =
        js_add (Finite (max c (currentTime ctx))) (duration buffer)) \<and>
   (base64Audio msg = Some base64 \<and> base64 \<noteq> [] \<and> decode_payload base64 = Inr buffer \<and>
    nextStartTime s = PosInf \<longrightarrow>
      onmessage msg (Some ctx) s = (Some TypeError, s))"
proof (intro conjI impI)
  show "number_le (nextStartTime s) (nextStartTime (snd (onmessage msg (Some ctx) s)))"
    using nextStartTime_onmessage [OF assms] by simp
  show "valid_cursor (nextStartTime (snd (onmessage msg (Some ctx) s)))"
    using nextStartTime_onmessage [OF assms] by simp
  show "onmessage msg None s = (None, s)"
    by (simp add: onmessage_ignored)
next
  assume "double_clock ms"
  with nextStartTime_deliver [OF assms(1)]
  show "number_le (nextStartTime s) (nextStartTime (deliver ms s))" by simp
next
  assume a: "base64Audio msg = Some base64 \<and> base64 \<noteq> []"
  let ?m = "Math_max (nextStartTime s) (Finite (currentTime ctx))"
  have raised: "number_le (Finite (currentTime ctx)) ?m"
    using assms(1) by (intro Math_max_ge_clock valid_cursor_not_NaN)
  have valid: "valid_cursor ?m" using assms by (rule valid_cursor_Math_max)
  show "number_le (Finite (currentTime ctx)) (nextStartTime (snd (onmessage msg (Some ctx) s)))"
  proof (cases "decode_payload base64")
    case (Inl e)
    with a raised show ?thesis by (simp add: onmessage_failed)
  next
    case (Inr buf)
    show ?thesis
    proof (cases "\<exists>w. ?m = Finite w \<and> 0 \<le> w")
      case True
      then obtain w where w: "?m = Finite w" "0 \<le> w" by blast
      with valid have "is_double w" by simp
      from cursor_step [OF Inr w(2) this]
      have "number_le (Finite w) (js_add (Finite w) (duration buf))" by simp
      from raised w(1) have "number_le (Finite (currentTime ctx)) (Finite w)" by simp
      from number_le_trans [OF this \<open>number_le (Finite w) (js_add (Finite w) (duration buf))\<close>]
      have "number_le (Finite (currentTime ctx)) (js_add (Finite w) (duration buf))" .
      with a Inr w show ?thesis by (simp add: onmessage_started)
    next
      case False
      from a have "base64Audio msg = Some base64" "base64 \<noteq> []" by simp_all
      from onmessage_not_started [OF this Inr False] raised show ?thesis by auto
    qed
  qed
next
  assume a: "base64Audio msg = Some base64 \<and> base64 \<noteq> [] \<and> decode_payload base64 = Inr buffer \<and>
    nextStartTime s = Finite c"
  with assms(1) have c: "0 \<le> c" by simp
  from a have m: "Math_max (nextStartTime s) (Finite (currentTime ctx)) = Finite (max c (currentTime ctx))"
    by simp
  from c have w: "0 \<le> max c (currentTime ctx)" by simp
  from a have b: "base64Audio msg = Some base64" "base64 \<noteq> []" "decode_payload base64 = Inr buffer"
    by simp_all
  note run = onmessage_started [OF b m w]
  show "started (snd (onmessage msg (Some ctx) s)) =
        started s @ [(max c (currentTime ctx), buffer)]"
    by (simp add: run)
  show "duration buffer = round_double (real (length (channelData buffer)) / 24000)"
    using b(3) by (rule decode_payload_buffer(3))
  show "nextStartTime (snd (onmessage msg (Some ctx) s)) =
        js_add (Finite (max c (currentTime ctx))) (duration buffer)"
    by (simp add: run)
next
  assume a: "base64Audio msg = Some base64 \<and> base64 \<noteq> [] \<and> decode_payload base64 = Inr buffer \<and>
    nextStartTime s = PosInf"
  then show "onmessage msg (Some ctx) s = (Some TypeError, s)"
    by (simp add: onmessage_def Let_def)
qed

theorem C2_cursor_advances_witness:
  "valid_cursor (nextStartTime initial_session) \<and> is_double (currentTime \<lparr>currentTime = 1\<rparr>) \<and>
   double_clock [(audio_message (encode [0, 0]), 1)] \<and>
   base64Audio (audio_message (encode [0, 0])) = Some (encode [0, 0]) \<and>
   encode [0, 0] \<noteq> [] \<and>
   decode_payload (encode [0, 0]) =
     Inr \<lparr>numberOfChannels = 1, sampleRate = 24000, channelData = [Finite 0]\<rparr> \<and>
   nextStartTime initial_session = Finite 0 \<and>
   started (snd (onmessage (audio_message (encode [0, 0])) (Some \<lparr>currentTime = 1\<rparr>)
     initial_session)) =
     [(1, \<lparr>numberOfChannels = 1, sampleRate = 24000, channelData = [Finite 0]\<rparr>)] \<and>
   nextStartTime (snd (onmessage (audio_message (encode [0, 0])) (Some \<lparr>currentTime = 1\<rparr>)
     initial_session)) = Finite (2251893638677485 / 2251799813685248) \<and>
   base64Audio (audio_message (encode [0, 0])) = Some (encode [0, 0]) \<and>
   onmessage (audio_message (encode [0, 0])) (Some \<lparr>currentTime = 1\<rparr>)
     (initial_session\<lparr>nextStartTime := PosInf\<rparr>) =
     (Some TypeError, initial_session\<lparr>nextStartTime := PosInf\<rparr>)"
proof -
  let ?m = "audio_message (encode [0, 0])"
  let ?buffer = "\<lparr>numberOfChannels = 1, sampleRate = 24000, channelData = [Finite 0]\<rparr>"
  have v: "valid_cursor (nextStartTime initial_session)"
    by (simp add: initial_session_def is_double_0)
  have v': "valid_cursor (nextStartTime (initial_session\<lparr>nextStartTime := PosInf\<rparr>))" by simp
  have t: "is_double (currentTime \<lparr>currentTime = 1\<rparr>)" by (simp add: is_double_1)
  have k: "double_clock [(?m, 1)]" by (simp add: is_double_1)
  have h1: "base64Audio ?m = Some (encode [0, 0])" by (rule base64Audio_audio_message)
  have h2: "encode [0, 0] \<noteq> []" by (rule encode_nonempty) simp
  have h3: "decode_payload (encode [0, 0]) = Inr ?buffer"
    by (simp add: decode_payload_def decode_encode decodeAudioData_def
        Int16Array_of_buffer_def createBuffer_def SAMPLE_RATE_OUT_def)
  have h4: "nextStartTime initial_session = Finite 0" by (simp add: initial_session_def)
  have d: "duration \<lparr>numberOfChannels = n, sampleRate = 24000, channelData = [Finite 0]\<rparr> =
      round_double (1 / 24000)" for n
    by (simp add: duration_def)
  from C2_cursor_advances [OF v t, of ?m "[(?m, 1)]" "encode [0, 0]" ?buffer 0] h1 h2 h3 h4
  have "started (snd (onmessage ?m (Some \<lparr>currentTime = 1\<rparr>) initial_session)) =
          started initial_session @ [(max 0 1, ?buffer)]"
    "nextStartTime (snd (onmessage ?m (Some \<lparr>currentTime = 1\<rparr>) initial_session)) =
          js_add (Finite (max 0 1)) (duration ?buffer)"
    by simp_all
  then have run: "started (snd (onmessage ?m (Some \<lparr>currentTime = 1\<rparr>) initial_session)) =
          [(1, ?buffer)]"
    "nextStartTime (snd (onmessage ?m (Some \<lparr>currentTime = 1\<rparr>) initial_session)) =
          Finite (2251893638677485 / 2251799813685248)"
    by (simp_all add: d sum_1_sample initial_session_def)
  from C2_cursor_advances [OF v' t, of ?m "[]" "encode [0, 0]" ?buffer 0] h1 h2 h3
  have inf: "onmessage ?m (Some \<lparr>currentTime = 1\<rparr>) (initial_session\<lparr>nextStartTime := PosInf\<rparr>) =
     (Some TypeError, initial_session\<lparr>nextStartTime := PosInf\<rparr>)"
    by simp
  from v t k h1 h2 h3 h4 run inf show ?thesis by simp
qed

text \<open>
  The claim as stated, with an advance of exactly the number of samples divided by
  24000, fails: a buffer of one sample started at \<open>1\<close> leaves the cursor at the double
  \<open>2251893638677485 / 2251799813685248\<close>, which is not \<open>1 + 1/24000\<close>.
\<close>

theorem C2_counterexample:
  "started (snd (onmessage (audio_message (encode [0, 0])) (Some \<lparr>currentTime = 1\<rparr>)
     initial_session)) =
     [(1, \<lparr>numberOfChannels = 1, sampleRate = 24000, channelData = [Finite 0]\<rparr>)] \<and>
   nextStartTime (snd (onmessage (audio_message (encode [0, 0])) (Some \<lparr>currentTime = 1\<rparr>)
     initial_session)) = Finite (2251893638677485 / 2251799813685248) \<and>
   (2251893638677485 / 2251799813685248 :: real) \<noteq> 1 + 1 / 24000"
  by (simp add: onmessage_one_sample [OF is_double_1] sum_1_sample)

text \<open>
  C7. A message without an audio payload (the chain
  \<open>serverContent?.modelTurn?.parts?.[0]?.inlineData?.data\<close> is \<open>undefined\<close>) leaves the
  whole state as it is: the cursor is unchanged, nothing is decoded and nothing is
  started, and the handler's promise is fulfilled.
\<close>

theorem C7_message_without_audio_ignored:
  assumes "base64Audio msg = None"
  shows "onmessage msg ctxRef s = (None, s) \<and> deliver [(msg, t)] s = s \<and>
         handle (OnMessage msg t) s = s"
proof -
  have "onmessage msg c s = (None, s)" for c
    using assms by (simp add: onmessage_ignored)
  then show ?thesis by simp
qed

theorem C7_message_without_audio_ignored_witness:
  "base64Audio \<lparr>serverContent = None\<rparr> = None \<and>
   onmessage \<lparr>serverContent = None\<rparr> (Some \<lparr>currentTime = 2\<rparr>) initial_session =
     (None, initial_session)"
proof -
  have h: "base64Audio \<lparr>serverContent = None\<rparr> = None" by (simp add: base64Audio_def)
  from C7_message_without_audio_ignored [OF h, of "Some \<lparr>currentTime = 2\<rparr>" initial_session]
    h show ?thesis by simp
qed

section \<open>The lifecycle\<close>

lemma status_onmessage: "status (snd (onmessage msg ctxRef s)) = status s"
  by (cases rule: onmessage_cases [of msg ctxRef s]) simp_all

lemma status_send: "status (send media s) = status s"
  by (simp add: send_def split: promise.splits)

lemma status_handle:
  "status (handle ev s) =
     (if sessionPromise s = NotCreated then status s
      else case ev of
             OnOpen \<Rightarrow> Connected
           | OnClose \<Rightarrow> Disconnected
           | OnError e \<Rightarrow> Error
           | SessionRejected e \<Rightarrow> (if sessionPromise s = Pending then Error else status s)
           | _ \<Rightarrow> status s)"
  by (cases ev)
    (simp_all add: onopen_def onclose_def onerror_def session_rejected_def session_resolved_def
      startSession_catch_def onaudioprocess_def interval_tick_def status_onmessage status_send
      split: option.splits)

lemma status_handle_not_Connecting:
  "status (handle ev s) = Connecting \<Longrightarrow> status s = Connecting"
  by (simp add: status_handle split: if_splits event.splits)

lemma status_run_not_Connecting:
  "status (run evs s) = Connecting \<Longrightarrow> status s = Connecting"
  by (induction evs arbitrary: s) (auto dest: status_handle_not_Connecting)

text \<open>Before \<open>ai.live.connect\<close> nothing is registered, installed or set: no event has an effect.\<close>

lemma handle_not_started:
  assumes "sessionPromise s = NotCreated" "\<not> processor s" "\<not> interval s"
  shows "handle ev s = s"
  using assms by (cases ev) simp_all

lemma run_not_started:
  assumes "sessionPromise s = NotCreated" "\<not> processor s" "\<not> interval s"
  shows "run evs s = s"
  by (induction evs) (simp_all add: handle_not_started [OF assms])

text \<open>After it, what the microphone and the camera give is sent: \<open>sent\<close> does record the calls.\<close>

lemma sent_after_open:
  "sent (run [OnOpen, SessionResolved, AudioProcess inputData, IntervalTick (Some jpeg)]
           (startSession (Inr ()) initial_session)) =
     [createBlob inputData, \<lparr>data = Some jpeg, mimeType = Some ''image/jpeg''\<rparr>]"
  by (simp add: startSession_def initial_session_def onopen_def session_resolved_def
      onaudioprocess_def interval_tick_def send_def)

text \<open>
  C5, as the code has it. Every lifecycle event sets the status without reading it: the
  open callback sets \<open>Connected\<close>, the close callback \<open>Disconnected\<close>, the error callback
  and the \<open>catch\<close> block of \<open>startSession\<close> (a rejected \<open>getUserMedia\<close> or a rejected
  \<open>sessionPromise\<close>) set \<open>Error\<close>; messages, audio blocks, timer ticks and the resolution
  of the promise leave it alone. Hence no sequence of events leads back to \<open>Connecting\<close>;
  the status is otherwise that of the last callback, whatever it was before.
\<close>

theorem C5_status_set_by_last_event:
  "status (onopen s) = Connected \<and> status (onclose s) = Disconnected \<and>
   status (onerror e s) = Error \<and> status (startSession (Inl e) s) = Error \<and>
   status (session_rejected e s) = Error \<and>
   (sessionPromise s \<noteq> NotCreated \<longrightarrow>
      status (handle OnOpen s) = Connected \<and> status (handle OnClose s) = Disconnected \<and>
      status (handle (OnError e) s) = Error) \<and>
   status (handle (OnMessage msg t) s) = status s \<and>
   status (handle (AudioProcess inputData) s) = status s \<and>
   status (handle (IntervalTick frame) s) = status s \<and>
   status (handle SessionResolved s) = status s \<and>
   (status (run evs s) = Connecting \<longrightarrow> status s = Connecting)"
proof -
  have "status (onopen s) = Connected" "status (onclose s) = Disconnected"
    "status (onerror e s) = Error" "status (startSession (Inl e) s) = Error"
    "status (session_rejected e s) = Error"
    by (simp_all add: onopen_def onclose_def onerror_def startSession_def
        startSession_catch_def session_rejected_def)
  moreover have "sessionPromise s \<noteq> NotCreated \<longrightarrow>
      status (handle OnOpen s) = Connected \<and> status (handle OnClose s) = Disconnected \<and>
      status (handle (OnError e) s) = Error"
    by (simp add: onopen_def onclose_def onerror_def)
  moreover have "status (handle (OnMessage msg t) s) = status s"
    "status (handle (AudioProcess inputData) s) = status s"
    "status (handle (IntervalTick frame) s) = status s"
    "status (handle SessionResolved s) = status s"
    by (simp_all add: status_onmessage status_send onaudioprocess_def interval_tick_def
        session_resolved_def split: option.splits)
  moreover have "status (run evs s) = Connecting \<longrightarrow> status s = Connecting"
    using status_run_not_Connecting by blast
  ultimately show ?thesis by blast
qed

theorem C5_status_set_by_last_event_witness:
  "sessionPromise (startSession (Inr ()) initial_session) \<noteq> NotCreated \<and>
   status (handle OnOpen (startSession (Inr ()) initial_session)) = Connected \<and>
   status (handle OnClose (startSession (Inr ()) initial_session)) = Disconnected \<and>
   status (handle (OnError ConnectionError) (startSession (Inr ()) initial_session)) = Error \<and>
   status (run [IntervalTick None] (startSession (Inr ()) initial_session)) = Connecting \<and>
   status (startSession (Inr ()) initial_session) = Connecting"
proof -
  have h1: "sessionPromise (startSession (Inr ()) initial_session) \<noteq> NotCreated"
    by (simp add: startSession_def)
  have h2: "status (run [IntervalTick None] (startSession (Inr ()) initial_session)) = Connecting"
    by (simp add: startSession_def initial_session_def)
  from C5_status_set_by_last_event [of "startSession (Inr ()) initial_session" ConnectionError
      undefined undefined undefined undefined "[IntervalTick None]"] h1 h2
  show ?thesis by blast
qed

text \<open>
  The claim as stated fails for an error callback followed by a close callback (what a
  failing WebSocket does): the status goes from \<open>Connecting\<close> to \<open>Error\<close> and on to
  \<open>Disconnected\<close>. A close callback before any open goes from \<open>Connecting\<close> straight to
  \<open>Disconnected\<close>.
\<close>

theorem C5_counterexample:
  "status (startSession (Inr ()) initial_session) = Connecting \<and>
   status (run [OnError ConnectionError] (startSession (Inr ()) initial_session)) = Error \<and>
   status (run [OnError ConnectionError, OnClose] (startSession (Inr ()) initial_session)) =
     Disconnected \<and>
   status (run [OnClose] (startSession (Inr ()) initial_session)) = Disconnected"
  by (simp add: startSession_def initial_session_def onerror_def onclose_def)

text \<open>
  C6. When \<open>getUserMedia\<close> is rejected, the session goes from \<open>Connecting\<close> to \<open>Error\<close> in
  the one step of the \<open>catch\<close> block, which logs the rejection (the media access error);
  \<open>ai.live.connect\<close> is never called, so no callback, audio processor or timer exists,
  whatever happens afterwards changes nothing, and \<open>sendRealtimeInput\<close> is never called
  nor waiting to be.
\<close>

theorem C6_capture_denied:
  "status initial_session = Connecting \<and>
   status (startSession (Inl e) initial_session) = Error \<and>
   console (startSession (Inl e) initial_session) = [e] \<and>
   console (startSession (Inl MediaAccessError) initial_session) = [MediaAccessError] \<and>
   sessionPromise (startSession (Inl e) initial_session) = NotCreated \<and>
   run evs (startSession (Inl e) initial_session) = startSession (Inl e) initial_session \<and>
   sent (run evs (startSession (Inl e) initial_session)) = [] \<and>
   waiting (run evs (startSession (Inl e) initial_session)) = []"
proof -
  let ?s = "startSession (Inl e) initial_session"
  have f: "sessionPromise ?s = NotCreated" "\<not> processor ?s" "\<not> interval ?s"
    by (simp_all add: startSession_def startSession_catch_def initial_session_def)
  have r: "run evs ?s = ?s" by (rule run_not_started [OF f])
  have "status initial_session = Connecting" "status ?s = Error" "console ?s = [e]"
    "console (startSession (Inl MediaAccessError) initial_session) = [MediaAccessError]"
    "sent ?s = []" "waiting ?s = []"
    by (simp_all add: startSession_def startSession_catch_def initial_session_def)
  with f(1) r show ?thesis by simp
qed

theorem C6_capture_denied_witness:
  "sent (run [OnOpen, SessionResolved, AudioProcess [Finite 0], IntervalTick (Some ''/9j/'')]
           (startSession (Inl MediaAccessError) initial_session)) = [] \<and>
   status (run [OnOpen, SessionResolved, AudioProcess [Finite 0], IntervalTick (Some ''/9j/'')]
           (startSession (Inl MediaAccessError) initial_session)) = Error"
proof -
  let ?evs = "[OnOpen, SessionResolved, AudioProcess [Finite 0], IntervalTick (Some ''/9j/'')]"
  let ?s = "startSession (Inl MediaAccessError) initial_session"
  note denied = C6_capture_denied [of MediaAccessError ?evs]
  from denied have r: "run ?evs ?s = ?s" by blast
  from denied have "sent (run ?evs ?s) = []" by blast
  moreover from denied have "status ?s = Error" by blast
  ultimately show ?thesis by (simp only: r)
qed

end
